theory Spec2Isabelle
  imports Complex_Main
begin

section \<open>Data model of FiniteBodyForces\<close>

text \<open>
  The class \<open>FiniteBodyForces\<close> of \<open>src/cpp/FiniteBodyForces.py\<close> is a bundle of NumPy
  arrays. An array of floats with rows is a list of rows; an index array is a list of
  \<open>int\<close>. Floating-point numbers are idealised as \<open>real\<close>: every sum and product is
  exact. The exceptions Python raises are values of \<open>error\<close>. NumPy raises nothing
  when a float division has a zero divisor or a mean is taken of nothing: it continues
  with \<open>inf\<close> or \<open>nan\<close>, which are no real numbers. The model stops there with the
  outcome \<open>NonFinite\<close>. A state is written \<open>M\<close>, as the object is in the scripts under
  \<open>src/docs\<close>.
\<close>

datatype error = IndexError | ValueError | AssertionError | UnboundLocalError | NonFinite

record fbf =
  R :: "real list list"
  T :: "int list list"
  E :: "real list"
  V :: "real list"
  var :: "bool list"
  Phi :: "real list list list"
  U :: "real list list"
  f_glo :: "real list list"
  f_ext :: "real list list"
  E_glo :: real
  K_glo :: "real list list list list"
  connections :: "(int \<times> int) list"
  K_glo_conn :: "real list list list"
  connections_sparse_indices :: "int list \<times> int list"
  force_distribute_coordinates :: "int list \<times> int list"
  stiffness_distribute_coordinates :: "int list \<times> int list"
  N_T :: nat
  N_c :: nat
  s :: "real list list"
  N_b :: nat

text \<open>NumPy indexing along an axis of length \<open>n\<close>: the indices \<open>0 .. n - 1\<close> are taken as
  they are, the indices \<open>-n .. -1\<close> count from the end, any other raises IndexError.\<close>

definition np_index :: "nat \<Rightarrow> int \<Rightarrow> nat option" where
  "np_index n i =
     (if 0 \<le> i \<and> i < int n then Some (nat i)
      else if - int n \<le> i \<and> i < 0 then Some (nat (i + int n))
      else None)"

definition np_get :: "'a list \<Rightarrow> int \<Rightarrow> error + 'a" where
  "np_get xs i = (case np_index (length xs) i of None \<Rightarrow> Inl IndexError | Some j \<Rightarrow> Inr (xs ! j))"

subsection \<open>setMeshTets, loadMeshTets\<close>

text \<open>\<open>zeros3 n r c\<close> is \<open>np.zeros((n, r, c))\<close>.\<close>

definition zeros2 :: "nat \<Rightarrow> nat \<Rightarrow> real list list" where
  "zeros2 r c = replicate r (replicate c 0)"

definition zeros3 :: "nat \<Rightarrow> nat \<Rightarrow> nat \<Rightarrow> real list list list" where
  "zeros3 n r c = replicate n (zeros2 r c)"

definition setMeshTets :: "int list list \<Rightarrow> fbf \<Rightarrow> fbf" where
  "setMeshTets data M =
     M\<lparr> T := map (map (\<lambda>x. x - 1)) data,
        N_T := length data,
        Phi := zeros3 (length data) 4 3,
        V := replicate (length data) 0,
        E := replicate (length data) 0 \<rparr>"

text \<open>\<open>loadMeshTets\<close> receives the two-dimensional array that \<open>np.loadtxt\<close> parsed from the
  file; \<open>data.shape[1]\<close> is the length of its rows.\<close>

definition loadMeshTets :: "int list list \<Rightarrow> fbf \<Rightarrow> error + fbf" where
  "loadMeshTets data M =
     (case data of
        [] \<Rightarrow> Inl IndexError
      | row # _ \<Rightarrow> if length row = 4 then Inr (setMeshTets data M) else Inl AssertionError)"

text \<open>A freshly constructed object: \<open>__init__\<close> does nothing, the class attributes are
  \<open>None\<close> (here the empty array) and \<open>0\<close>.\<close>

definition new_fbf :: fbf where
  "new_fbf = \<lparr> R = [], T = [], E = [], V = [], var = [], Phi = [], U = [], f_glo = [],
      f_ext = [], E_glo = 0, K_glo = [], connections = [], K_glo_conn = [],
      connections_sparse_indices = ([], []), force_distribute_coordinates = ([], []),
      stiffness_distribute_coordinates = ([], []), N_T = 0, N_c = 0, s = [], N_b = 0 \<rparr>"

subsection \<open>Array helpers\<close>

text \<open>\<open>imul a b\<close> is the source's \<open>imul\<close>: the sum of the products of the entries.
  \<open>sum_mul a b\<close> is \<open>np.sum(a * b)\<close> on two-dimensional arrays.\<close>

definition imul :: "real list \<Rightarrow> real list \<Rightarrow> real" where
  "imul a b = sum_list (map2 (*) a b)"

definition sum_mul :: "real list list \<Rightarrow> real list list \<Rightarrow> real" where
  "sum_mul a b = sum_list (map2 imul a b)"

text \<open>Sequencing of steps that may raise.\<close>

definition ebind :: "error + 'a \<Rightarrow> ('a \<Rightarrow> error + 'b) \<Rightarrow> error + 'b" where
  "ebind m k = (case m of Inl e \<Rightarrow> Inl e | Inr x \<Rightarrow> k x)"

text \<open>A step that may raise, applied to every entry in order.\<close>

fun emap :: "('a \<Rightarrow> error + 'b) \<Rightarrow> 'a list \<Rightarrow> error + 'b list" where
  "emap g [] = Inr []"
| "emap g (x # xs) = ebind (g x) (\<lambda>y. ebind (emap g xs) (\<lambda>ys. Inr (y # ys)))"

text \<open>\<open>u[idx]\<close> with an index array: one entry per index, IndexError at the first bad one.\<close>

definition np_take :: "'a list \<Rightarrow> int list \<Rightarrow> error + 'a list" where
  "np_take xs js = emap (np_get xs) js"

text \<open>\<open>np.einsum("nij,nj->ni", K, w)\<close>: the n-th block times the n-th row.\<close>

definition einsum_nij_nj :: "real list list list \<Rightarrow> real list list \<Rightarrow> real list list" where
  "einsum_nij_nj K w = map2 (\<lambda>Kn wn. map (\<lambda>row. imul row wn) Kn) K w"

text \<open>The shape of a two-dimensional array.\<close>

definition shape2 :: "'a list list \<Rightarrow> nat \<times> nat" where
  "shape2 a = (length a, case a of [] \<Rightarrow> 0 | row # _ \<Rightarrow> length row)"

text \<open>\<open>np.add.at(f, idx, vals)\<close>: for each k in order, \<open>f[idx[k]] += vals[k]\<close>; repeated
  indices accumulate.\<close>

fun add_at :: "real list list \<Rightarrow> int list \<Rightarrow> real list list \<Rightarrow> error + real list list" where
  "add_at f [] vals = Inr f"
| "add_at f (i # js) [] = Inl ValueError"
| "add_at f (i # js) (v # vals) =
     (case np_index (length f) i of
        None \<Rightarrow> Inl IndexError
      | Some j \<Rightarrow> add_at (f[j := map2 (+) (f ! j) v]) js vals)"

text \<open>\<open>coo_matrix((data, (row, col)), shape).toarray()\<close>: the constructor refuses index
  arrays of another length than the data and indices outside the shape (negative ones
  too); the dense array starts at zero and entries with the same coordinates add up.\<close>

definition coo_add :: "real list list \<Rightarrow> real \<times> int \<times> int \<Rightarrow> real list list" where
  "coo_add B e = (case e of (d, r, c) \<Rightarrow>
      B[nat r := (B ! nat r)[nat c := B ! nat r ! nat c + d]])"

definition coo_toarray ::
  "real list \<Rightarrow> int list \<times> int list \<Rightarrow> nat \<times> nat \<Rightarrow> error + real list list" where
  "coo_toarray data ij shape =
     (case ij of (row, col) \<Rightarrow> case shape of (nr, nc) \<Rightarrow>
       if length row \<noteq> length data \<or> length col \<noteq> length data then Inl ValueError
       else if (\<exists>r \<in> set row. r < 0 \<or> int nr \<le> r) \<or> (\<exists>c \<in> set col. c < 0 \<or> int nc \<le> c)
         then Inl ValueError
       else Inr (foldl coo_add (zeros2 nr nc) (zip data (zip row col))))"

subsection \<open>The stiffness operator: mulK and mulK_sparse\<close>

text \<open>The table \<open>connections_sparse_indices\<close> as \<open>computeConnections\<close> builds it:
  \<open>x, y = np.meshgrid(np.arange(3), connections[:, 0])\<close>, then
  \<open>(y.flatten(), x.flatten())\<close>.\<close>

definition sparse_indices :: "(int \<times> int) list \<Rightarrow> int list \<times> int list" where
  "sparse_indices conns =
     (concat (map (\<lambda>c. [fst c, fst c, fst c]) conns), concat (map (\<lambda>c. [0, 1, 2]) conns))"

definition mulK :: "fbf \<Rightarrow> real list list \<Rightarrow> real list list \<Rightarrow> error + real list list" where
  "mulK M f u =
     (let f0 = map (map (\<lambda>x. 0)) f;
          c1 = map fst (connections M);
          c2 = map snd (connections M)
      in case np_take u c2 of
           Inl e \<Rightarrow> Inl e
         | Inr w \<Rightarrow> add_at f0 c1 (einsum_nij_nj (K_glo_conn M) w))"

definition mulK_sparse :: "fbf \<Rightarrow> real list list \<Rightarrow> real list list \<Rightarrow> error + real list list" where
  "mulK_sparse M f u =
     (case np_take u (map snd (connections M)) of
        Inl e \<Rightarrow> Inl e
      | Inr w \<Rightarrow>
          (let dout = einsum_nij_nj (K_glo_conn M) w
           in case coo_toarray (concat dout) (connections_sparse_indices M) (shape2 u) of
                Inl e \<Rightarrow> Inl e
              | Inr a \<Rightarrow> if shape2 f = shape2 u then Inr a else Inl ValueError))"

text \<open>The sum formula both operators are compared with:
  \<open>f[i] = sum of K_glo_conn[k] . u[j] over the connections k = (i, j)\<close>, a zero row where
  no connection starts at \<open>i\<close>.\<close>

definition Ku_spec ::
  "(int \<times> int) list \<Rightarrow> real list list list \<Rightarrow> real list list \<Rightarrow> real list list" where
  "Ku_spec conns K u =
     map (\<lambda>i. map (\<lambda>a. sum_list (map (\<lambda>e. imul (snd e ! a) (u ! nat (snd (fst e))))
                                 (filter (\<lambda>e. fst (fst e) = int i) (zip conns K))))
                [0..<3])
         [0..<length u]"

text \<open>An array of shape \<open>(n, 3)\<close>; and the tables of a state whose connections index
  \<open>n\<close> nodes, as \<open>computeConnections\<close> leaves them.\<close>

definition is_Nx3 :: "nat \<Rightarrow> real list list \<Rightarrow> bool" where
  "is_Nx3 n a = (length a = n \<and> (\<forall>row \<in> set a. length row = 3))"

definition conn_ok :: "fbf \<Rightarrow> nat \<Rightarrow> bool" where
  "conn_ok M n =
     ((\<forall>c \<in> set (connections M). 0 \<le> fst c \<and> fst c < int n \<and> 0 \<le> snd c \<and> snd c < int n) \<and>
      length (K_glo_conn M) = length (connections M) \<and>
      (\<forall>Kc \<in> set (K_glo_conn M). length Kc = 3 \<and> (\<forall>row \<in> set Kc. length row = 3)) \<and>
      connections_sparse_indices M = sparse_indices (connections M))"

text \<open>Tables whose first index is \<open>-1\<close>. \<open>computeConnections\<close> builds such tables when
  the tetrahedra were given with node numbers counted from 0: \<open>setMeshTets\<close> turns the
  node 0 into \<open>-1\<close>, \<open>var[-1]\<close> is the entry of the last node, and when that node is free
  the pairs \<open>(-1, c2)\<close> enter \<open>connections\<close> and \<open>connections_sparse_indices\<close>.\<close>

definition wrapped_node :: fbf where
  "wrapped_node =
     new_fbf\<lparr> connections := [(-1, 0)],
       K_glo_conn := [[[1, 0, 0], [0, 2, 0], [0, 0, 3]]],
       connections_sparse_indices := sparse_indices [(-1, 0)],
       N_c := 2 \<rparr>"

text \<open>One step of \<open>np.add.at\<close> on rows, used to relate the two accumulations.\<close>

definition row_add :: "real list list \<Rightarrow> int \<times> real list \<Rightarrow> real list list" where
  "row_add B e = (case e of (i, v) \<Rightarrow> B[nat i := map2 (+) (B ! nat i) v])"

subsection \<open>setMeshCoords\<close>

definition setMeshCoords :: "real list list \<Rightarrow> fbf \<Rightarrow> fbf" where
  "setMeshCoords data M =
     M\<lparr> R := data,
        N_c := length data,
        U := zeros2 (length data) 3,
        var := replicate (length data) True,
        f_glo := zeros2 (length data) 3,
        f_ext := zeros2 (length data) 3,
        K_glo := replicate (length data) (zeros3 (length data) 3 3) \<rparr>"

subsection \<open>computePhi\<close>

definition Chi :: "real list list" where
  "Chi = [[-1, -1, -1], [1, 0, 0], [0, 1, 0], [0, 0, 1]]"

text \<open>The source's \<open>det\<close> and \<open>invert\<close> of a 3 x 3 matrix. \<open>computePhi\<close> calls
  \<open>np.linalg.det\<close> and \<open>np.linalg.inv\<close>, which compute the same two values up to
  rounding; in exact arithmetic they are these.\<close>

definition det :: "real list list \<Rightarrow> real" where
  "det a =
     (let xx = a ! 0 ! 0; xy = a ! 0 ! 1; xz = a ! 0 ! 2;
          yx = a ! 1 ! 0; yy = a ! 1 ! 1; yz = a ! 1 ! 2;
          zx = a ! 2 ! 0; zy = a ! 2 ! 1; zz = a ! 2 ! 2
      in xx * yy * zz + xy * yz * zx + xz * zy * yx
         - xx * yz * zy - yy * xz * zx - zz * xy * yx)"

definition invert :: "real list list \<Rightarrow> real list list" where
  "invert a =
     (let deter = det a;
          xx = a ! 0 ! 0; xy = a ! 0 ! 1; xz = a ! 0 ! 2;
          yx = a ! 1 ! 0; yy = a ! 1 ! 1; yz = a ! 1 ! 2;
          zx = a ! 2 ! 0; zy = a ! 2 ! 1; zz = a ! 2 ! 2
      in [[(yy * zz - yz * zy) / deter, (xz * zy - xy * zz) / deter, (xy * yz - yy * xz) / deter],
          [(yz * zx - yx * zz) / deter, (xx * zz - xz * zx) / deter, (xz * yx - xx * yz) / deter],
          [(yx * zy - yy * zx) / deter, (xy * zx - xx * zy) / deter, (xx * yy - xy * yx) / deter]])"

text \<open>The matrix product \<open>a @ b\<close> of two-dimensional arrays.\<close>

definition matmul :: "real list list \<Rightarrow> real list list \<Rightarrow> real list list" where
  "matmul a b = map (\<lambda>row. map (imul row) (transpose b)) a"

text \<open>A value assigned to a column \<open>B[:, k]\<close> of three entries: three entries fit, one
  entry is broadcast, anything else raises ValueError.\<close>

definition to_column3 :: "real list \<Rightarrow> error + real list" where
  "to_column3 d =
     (if length d = 3 then Inr d
      else if length d = 1 then Inr (replicate 3 (hd d))
      else Inl ValueError)"

text \<open>\<open>R[tet[k]] - R[tet[0]]\<close>, as a column of \<open>B\<close>.\<close>

definition edge_column :: "real list list \<Rightarrow> int list \<Rightarrow> int \<Rightarrow> error + real list" where
  "edge_column r tet k =
     ebind (np_get tet k) (\<lambda>ck. ebind (np_get r ck) (\<lambda>rk.
     ebind (np_get tet 0) (\<lambda>c0. ebind (np_get r c0) (\<lambda>r0.
       if length rk = length r0 then to_column3 (map2 (-) rk r0) else Inl ValueError))))"

text \<open>The matrix \<open>B\<close> of a tetrahedron: its columns are the three edges from corner 0.\<close>

definition tet_matrix :: "real list list \<Rightarrow> int list \<Rightarrow> error + real list list" where
  "tet_matrix r tet =
     ebind (edge_column r tet 1) (\<lambda>b0.
     ebind (edge_column r tet 2) (\<lambda>b1.
     ebind (edge_column r tet 3) (\<lambda>b2. Inr (transpose [b0, b1, b2]))))"

text \<open>The body of the loop of \<open>computePhi\<close> for the tetrahedron \<open>t\<close>.\<close>

definition computePhi_step :: "nat \<Rightarrow> fbf \<Rightarrow> error + fbf" where
  "computePhi_step t M =
     ebind (np_get (T M) (int t)) (\<lambda>tet.
     ebind (tet_matrix (R M) tet) (\<lambda>B.
       if length (V M) \<le> t then Inl IndexError
       else
         let vol = \<bar>det B\<bar> / 6;
             M1 = M\<lparr> V := (V M)[t := vol] \<rparr>
         in if vol \<noteq> 0
            then if length (Phi M) \<le> t then Inl IndexError
                 else Inr (M1\<lparr> Phi := (Phi M)[t := matmul Chi (invert B)] \<rparr>)
            else Inr M1))"

fun computePhi_loop :: "nat list \<Rightarrow> fbf \<Rightarrow> error + fbf" where
  "computePhi_loop [] M = Inr M"
| "computePhi_loop (t # ts) M = ebind (computePhi_step t M) (computePhi_loop ts)"

definition computePhi :: "fbf \<Rightarrow> error + fbf" where
  "computePhi M = computePhi_loop [0..<N_T M] M"

text \<open>A mesh on which no index of \<open>computePhi\<close> is out of range: every tetrahedron has
  four corners that are nodes, every node has three coordinates, and \<open>V\<close> and \<open>Phi\<close> have
  one entry per tetrahedron.\<close>

definition mesh_ok :: "fbf \<Rightarrow> bool" where
  "mesh_ok M =
     (length (T M) = N_T M \<and> length (V M) = N_T M \<and> length (Phi M) = N_T M \<and>
      (\<forall>row \<in> set (R M). length row = 3) \<and>
      (\<forall>tet \<in> set (T M). length tet = 4 \<and>
         (\<forall>c \<in> set tet. - int (length (R M)) \<le> c \<and> c < int (length (R M)))))"

text \<open>The sum of column \<open>j\<close> over the four rows of a shape tensor.\<close>

definition column_sum :: "real list list \<Rightarrow> nat \<Rightarrow> real" where
  "column_sum phi j = (\<Sum>m < 4. phi ! m ! j)"

text \<open>A mesh with one tetrahedron whose corners all lie in the plane \<open>z = 0\<close>, given with
  indices that start at 1.\<close>

definition flat_mesh :: fbf where
  "flat_mesh =
     setMeshTets [[1, 2, 3, 4]]
       (setMeshCoords [[0, 0, 0], [1, 0, 0], [0, 1, 0], [1, 1, 0]] new_fbf)"

text \<open>The unit tetrahedron.\<close>

definition unit_mesh :: fbf where
  "unit_mesh =
     setMeshTets [[1, 2, 3, 4]]
       (setMeshCoords [[0, 0, 0], [1, 0, 0], [0, 1, 0], [0, 0, 1]] new_fbf)"

text \<open>Two nodes with three connections, for evaluating the operators.\<close>

definition two_nodes :: fbf where
  "two_nodes =
     new_fbf\<lparr> connections := [(0, 0), (0, 1), (1, 1)],
       K_glo_conn := [[[1, 0, 0], [0, 2, 0], [0, 0, 3]],
                      [[1, 1, 1], [0, 0, 0], [0, 0, 1]],
                      [[2, 0, 0], [0, 2, 0], [0, 0, 2]]],
       connections_sparse_indices := sparse_indices [(0, 0), (0, 1), (1, 1)],
       N_c := 2 \<rparr>"

subsection \<open>update_energy\<close>

text \<open>\<open>np.mean\<close> of one row; of an empty row it is \<open>nan\<close>.\<close>

definition np_mean :: "real list \<Rightarrow> error + real" where
  "np_mean row = (if row = [] then Inl NonFinite else Inr (sum_list row / real (length row)))"

text \<open>The product \<open>a * b\<close> of one-dimensional arrays: entry by entry, an array of one entry
  is broadcast, other lengths that differ raise ValueError.\<close>

definition np_mul :: "real list \<Rightarrow> real list \<Rightarrow> error + real list" where
  "np_mul a b =
     (if length a = length b then Inr (map2 (*) a b)
      else if length a = 1 then Inr (map (\<lambda>y. hd a * y) b)
      else if length b = 1 then Inr (map (\<lambda>x. x * hd b) a)
      else Inl ValueError)"

text \<open>The assignment \<open>e[:] = x\<close>.\<close>

definition assign_all :: "real list \<Rightarrow> real list \<Rightarrow> error + real list" where
  "assign_all e x =
     (if length x = length e then Inr x
      else if length x = 1 then Inr (replicate (length e) (hd x))
      else Inl ValueError)"

text \<open>The selection \<open>e[sel]\<close> by an array \<open>sel\<close> of booleans of the same length.\<close>

definition bool_select :: "'a list \<Rightarrow> bool list \<Rightarrow> error + 'a list" where
  "bool_select e sel =
     (if length sel = length e then Inr (map fst (filter snd (zip e sel)))
      else Inl IndexError)"

definition update_energy :: "real list list \<Rightarrow> fbf \<Rightarrow> error + fbf" where
  "update_energy epsilon_b M =
     ebind (emap (np_take (var M)) (T M)) (\<lambda>varT.
       let countEnergy = map (\<lambda>row. \<exists>b \<in> set row. b) varT
       in ebind (emap np_mean epsilon_b) (\<lambda>means.
          ebind (np_mul means (V M)) (\<lambda>x.
          ebind (assign_all (E M) x) (\<lambda>E'.
          ebind (bool_select E' countEnergy) (\<lambda>counted.
            Inr (M\<lparr> E := E', E_glo := sum_list counted \<rparr>))))))"

text \<open>A tetrahedron with at least one free (variable) corner.\<close>

definition any_free :: "bool list \<Rightarrow> int list \<Rightarrow> bool" where
  "any_free vs tet = (\<exists>c \<in> set tet. np_get vs c = Inr True)"

text \<open>Two tetrahedra on five nodes and three beams; the nodes 1 to 4 are fixed, so the
  second tetrahedron has no free corner.\<close>

definition two_tets :: fbf where
  "two_tets =
     (setMeshTets [[1, 2, 3, 4], [2, 3, 4, 5]]
        (setMeshCoords [[0, 0, 0], [1, 0, 0], [0, 1, 0], [0, 0, 1], [1, 1, 1]] new_fbf))
     \<lparr> var := [True, False, False, False, False], V := [1 / 6, 1 / 3], N_b := 3 \<rparr>"

subsection \<open>solve_CG\<close>

text \<open>The difference \<open>a - b\<close> of two arrays of the same shape; the arrays of the class have
  \<open>N_c\<close> rows of three entries, so no axis is broadcast, and other shapes raise
  ValueError.\<close>

definition np_sub2 :: "real list list \<Rightarrow> real list list \<Rightarrow> error + real list list" where
  "np_sub2 a b =
     (if map length a = map length b then Inr (map2 (map2 (-)) a b) else Inl ValueError)"

text \<open>\<open>a[~var, :] = 0\<close>: the rows of the fixed nodes are set to zero; the array of
  booleans has to be as long as the array has rows.\<close>

definition zero_fixed_rows :: "bool list \<Rightarrow> real list list \<Rightarrow> error + real list list" where
  "zero_fixed_rows vs a =
     (if length vs = length a
      then Inr (map2 (\<lambda>v row. if v then row else map (\<lambda>x. 0) row) vs a)
      else Inl IndexError)"

text \<open>\<open>ff = self.f_glo - self.f_ext\<close>, then \<open>ff[~self.var, :] = 0\<close>.\<close>

definition force_deviation :: "fbf \<Rightarrow> error + real list list" where
  "force_deviation M = ebind (np_sub2 (f_glo M) (f_ext M)) (zero_fixed_rows (var M))"

text \<open>Inside the loop all arrays have the shape \<open>(N_c, 3)\<close>, so the sums, differences and
  multiples of arrays cannot raise.\<close>

definition add2 :: "real list list \<Rightarrow> real list list \<Rightarrow> real list list" where
  "add2 a b = map2 (map2 (+)) a b"

definition sub2 :: "real list list \<Rightarrow> real list list \<Rightarrow> real list list" where
  "sub2 a b = map2 (map2 (-)) a b"

definition scale :: "real \<Rightarrow> real list list \<Rightarrow> real list list" where
  "scale c a = map (map (\<lambda>x. c * x)) a"

text \<open>The loop \<open>for i in range(1, maxiter + 1)\<close>: \<open>n\<close> iterations are left, \<open>i\<close> have been
  made, \<open>bound\<close> is \<open>tol * normb\<close>. The result is the last value of \<open>i\<close> with \<open>uu\<close> and
  \<open>rr\<close>. A zero divisor gives \<open>inf\<close> or \<open>nan\<close> in NumPy, here the outcome NonFinite.\<close>

fun cg_loop ::
  "fbf \<Rightarrow> real \<Rightarrow> nat \<Rightarrow> nat \<Rightarrow> real list list \<Rightarrow> real list list \<Rightarrow> real list list \<Rightarrow> real
   \<Rightarrow> error + (nat \<times> real list list \<times> real list list)" where
  "cg_loop M bound 0 i uu rr pp resid = Inr (i, uu, rr)"
| "cg_loop M bound (Suc n) i uu rr pp resid =
     ebind (mulK_sparse M (zeros2 (N_c M) 3) pp) (\<lambda>Ap.
       if sum_mul pp Ap = 0 then Inl NonFinite
       else
         let alpha = resid / sum_mul pp Ap;
             uu' = add2 uu (scale alpha pp);
             rr' = sub2 rr (scale alpha Ap);
             rsnew = sum_mul rr' rr'
         in if rsnew < bound then Inr (Suc i, uu', rr')
            else if resid = 0 then Inl NonFinite
            else cg_loop M bound n (Suc i) uu' rr' (add2 rr' (scale (rsnew / resid) pp)) rsnew)"

text \<open>The branch \<open>normb > 0\<close> of \<open>solve_CG\<close> up to the end of the loop, for the right-hand
  side \<open>ff\<close> and the bound \<open>maxiter\<close> on the iterations: \<open>tol = 0.00001\<close>, \<open>uu\<close> starts at
  zero. The source has \<open>maxiter = 3 * self.N_c\<close>, which is \<open>run_CG\<close>.\<close>

definition CG_capped ::
  "nat \<Rightarrow> fbf \<Rightarrow> real list list \<Rightarrow> error + (nat \<times> real list list \<times> real list list)" where
  "CG_capped maxiter M ff =
     (let tol = 1 / 100000;
          uu = zeros2 (N_c M) 3;
          normb = sum_mul ff ff
      in ebind (mulK_sparse M (zeros2 (N_c M) 3) uu) (\<lambda>kk.
         ebind (np_sub2 ff kk) (\<lambda>rr.
           cg_loop M (tol * normb) maxiter 0 uu rr rr (sum_mul rr rr))))"

definition run_CG :: "fbf \<Rightarrow> real list list \<Rightarrow> error + (nat \<times> real list list \<times> real list list)" where
  "run_CG M ff = CG_capped (3 * N_c M) M ff"

text \<open>\<open>self.U[self.var] += uu[self.var] * stepper\<close>: the rows of the free nodes are
  written, no other.\<close>

definition add_to_free_rows ::
  "bool list \<Rightarrow> real list list \<Rightarrow> real list list \<Rightarrow> real \<Rightarrow> error + real list list" where
  "add_to_free_rows vs u uu stepper =
     (if length vs \<noteq> length u \<or> length vs \<noteq> length uu then Inl IndexError
      else if \<exists>row \<in> set u. length row \<noteq> 3 then Inl ValueError
      else Inr (map2 (\<lambda>v (row, d). if v then map2 (+) row (map (\<lambda>x. x * stepper) d) else row)
                  vs (zip u uu)))"

text \<open>\<open>solve_CG\<close> returns \<open>du\<close>; the state it leaves is returned with it. The array
  \<open>kk2\<close> is never read, but its allocation evaluates \<open>uu[self.var]\<close>.\<close>

definition solve_CG :: "real \<Rightarrow> fbf \<Rightarrow> error + (real \<times> fbf)" where
  "solve_CG stepper M =
     ebind (force_deviation M) (\<lambda>ff.
     ebind (bool_select (zeros2 (N_c M) 3) (var M)) (\<lambda>kk2.
       if sum_mul ff ff > 0
       then ebind (run_CG M ff) (\<lambda>res. case res of (i, uu, rr) \<Rightarrow>
            ebind (add_to_free_rows (var M) (U M) uu stepper) (\<lambda>U'.
            ebind (bool_select uu (var M)) (\<lambda>moved.
              Inr (sum_mul moved moved * stepper * stepper, M\<lparr> U := U' \<rparr>))))
       else Inr (0, M)))"

text \<open>One free node with the stiffness block \<open>diag(1, k, 1)\<close>, the force \<open>fg\<close> on it
  and no external force.\<close>

definition diag_node :: "real \<Rightarrow> real list \<Rightarrow> fbf" where
  "diag_node k fg =
     (setMeshCoords [[0, 0, 0]] new_fbf)
     \<lparr> f_glo := [fg],
       connections := [(0, 0)],
       K_glo_conn := [[[1, 0, 0], [0, k, 0], [0, 0, 1]]],
       connections_sparse_indices := sparse_indices [(0, 0)] \<rparr>"

text \<open>The identity as stiffness block and the force \<open>(1, 0, 0)\<close>.\<close>

definition one_node :: fbf where
  "one_node = diag_node 1 [1, 0, 0]"

text \<open>The stiffness block \<open>diag(1, 1.001, 1)\<close> and the force \<open>(1, 1, 0)\<close>.\<close>

definition stiff_node :: fbf where
  "stiff_node = diag_node (1001 / 1000) [1, 1, 0]"

text \<open>The stiffness block \<open>diag(1, 2, 1)\<close> and the force \<open>(1, 1, 0)\<close>: the loop needs two
  iterations.\<close>

definition two_step_node :: fbf where
  "two_step_node = diag_node 2 [1, 1, 0]"

text \<open>A node at rest (no force on it) whose connection table names a node that does not
  exist, so that every application of the stiffness operator raises.\<close>

definition idle_node :: fbf where
  "idle_node =
     (setMeshCoords [[0, 0, 0]] new_fbf)
     \<lparr> connections := [(5, 5)],
       K_glo_conn := [[[1, 0, 0], [0, 1, 0], [0, 0, 1]]],
       connections_sparse_indices := sparse_indices [(5, 5)] \<rparr>"

text \<open>The right-hand side as the specification words it: \<open>f_ext - f_glo\<close> on the free
  rows and 0 on the fixed rows.\<close>

definition spec_rhs :: "fbf \<Rightarrow> error + real list list" where
  "spec_rhs M = ebind (np_sub2 (f_ext M) (f_glo M)) (zero_fixed_rows (var M))"

subsection \<open>updateGloFAndK\<close>

text \<open>The material model \<open>self.lookUpEpsilon\<close> is built by \<open>buildEpsilon\<close>, which is not
  among the sources. It is a parameter \<open>lookUp\<close> of the model: a function that gives, for a
  strain, the energy density and its first two derivatives.\<close>

type_synonym material = "real \<Rightarrow> real \<times> real \<times> real"

definition eye3 :: "real list list" where
  "eye3 = [[1, 0, 0], [0, 1, 0], [0, 0, 1]]"

text \<open>\<open>a @ b\<close> with the check of the inner dimension, and for two stacks of matrices.\<close>

definition np_matmul :: "real list list \<Rightarrow> real list list \<Rightarrow> error + real list list" where
  "np_matmul a b =
     (if \<forall>row \<in> set a. length row = length b then Inr (matmul a b) else Inl ValueError)"

definition stack_matmul ::
  "real list list list \<Rightarrow> real list list list \<Rightarrow> error + real list list list" where
  "stack_matmul a b =
     (if length a = length b then emap (\<lambda>ab. np_matmul (fst ab) (snd ab)) (zip a b)
      else Inl ValueError)"

text \<open>\<open>get_star_and_bar\<close>: \<open>u_T = U[T].transpose(0, 2, 1)\<close>, \<open>F = eye(3) + u_T @ Phi\<close>,
  \<open>s_bar = F @ s.T\<close> and \<open>s_star = Phi @ s.T\<close>.\<close>

definition get_star_and_bar ::
  "fbf \<Rightarrow> error + (real list list list \<times> real list list list)" where
  "get_star_and_bar M =
     ebind (emap (np_take (U M)) (T M)) (\<lambda>UT.
       let u_T = map transpose UT
       in ebind (stack_matmul u_T (Phi M)) (\<lambda>uPhi.
          let F = map (add2 eye3) uPhi
          in ebind (emap (\<lambda>Ft. np_matmul Ft (transpose (s M))) F) (\<lambda>s_bar.
             ebind (emap (\<lambda>Pt. np_matmul Pt (transpose (s M))) (Phi M)) (\<lambda>s_star.
               Inr (s_bar, s_star)))))"

text \<open>\<open>np.linalg.norm(s_bar, axis=1)\<close> for one tetrahedron: the length of every column
  of the 3 x N_b matrix.\<close>

definition norm_axis1 :: "real list list \<Rightarrow> real list" where
  "norm_axis1 sb = map (\<lambda>col. sqrt (sum_list (map (\<lambda>x. x * x) col))) (transpose sb)"

text \<open>\<open>zzEpsilons3\<close> for one tetrahedron of volume \<open>v\<close>: the material at \<open>s - 1\<close>, then
  \<open>dEdsbar = - (epsbar / s) / N_b * V\<close> and
  \<open>dEdsbarbar = ((s * epsbarbar - epsbar) / s ** 3) / N_b * V\<close>, with
  \<open>N_b = s_bar.shape[-1]\<close>. A stretch \<open>s = 0\<close> is a zero divisor.\<close>

definition zzEpsilons3_row ::
  "material \<Rightarrow> real \<Rightarrow> real list list \<Rightarrow> error + (real list \<times> real list \<times> real list)" where
  "zzEpsilons3_row lookUp v sb =
     (let st = norm_axis1 sb; nb = real (length st)
      in if \<exists>x \<in> set st. x = 0 then Inl NonFinite
         else Inr (map (\<lambda>x. fst (lookUp (x - 1))) st,
                   map (\<lambda>x. - (fst (snd (lookUp (x - 1))) / x) / nb * v) st,
                   map (\<lambda>x. ((x * snd (snd (lookUp (x - 1))) - fst (snd (lookUp (x - 1)))) / x ^ 3)
                             / nb * v) st))"

definition zzEpsilons3 ::
  "material \<Rightarrow> real list list list \<Rightarrow> real list
   \<Rightarrow> error + (real list list \<times> real list list \<times> real list list)" where
  "zzEpsilons3 lookUp s_bar vol =
     (if length vol \<noteq> length s_bar then Inl ValueError
      else ebind (emap (\<lambda>x. zzEpsilons3_row lookUp (fst x) (snd x)) (zip vol s_bar)) (\<lambda>rows.
             Inr (map fst rows, map (\<lambda>r. fst (snd r)) rows, map (\<lambda>r. snd (snd r)) rows)))"

text \<open>\<open>update_f_glo\<close>: \<open>f_tmi = sum_b s*_tmb s'_tib dEds'_tb\<close>, scattered by \<open>reshape_f4\<close>
  into \<open>f_glo\<close> with the table \<open>force_distribute_coordinates\<close>.\<close>

definition sum3 :: "real list \<Rightarrow> real list \<Rightarrow> real list \<Rightarrow> real" where
  "sum3 a b c = sum_list (map (\<lambda>x. fst x * fst (snd x) * snd (snd x)) (zip a (zip b c)))"

definition einsum_tmb_tib_tb ::
  "real list list list \<Rightarrow> real list list list \<Rightarrow> real list list \<Rightarrow> real list list list" where
  "einsum_tmb_tib_tb s_star s_bar dE =
     map (\<lambda>x. case x of (star, bar, d) \<Rightarrow>
            map (\<lambda>sm. map (\<lambda>si. sum3 sm si d) bar) star)
         (zip s_star (zip s_bar dE))"

definition update_f_glo ::
  "real list list list \<Rightarrow> real list list list \<Rightarrow> real list list \<Rightarrow> fbf \<Rightarrow> error + fbf" where
  "update_f_glo s_star s_bar dEdsbar M =
     (let f = einsum_tmb_tib_tb s_star s_bar dEdsbar
      in ebind (coo_toarray (concat (concat f)) (force_distribute_coordinates M)
                  (shape2 (f_glo M))) (\<lambda>a.
           Inr (M\<lparr> f_glo := a \<rparr>)))"

text \<open>\<open>starbar\<close>: the block \<open>K_tmril = sum_b s*_tmb s*_trb (0.5 * (d2_tb s'_tib s'_tlb -
  delta_il d1_tb))\<close> of one tetrahedron, as a 4 x 4 array of 3 x 3 matrices.\<close>

definition starbar_tet ::
  "real list list \<Rightarrow> real list list \<Rightarrow> real list \<Rightarrow> real list \<Rightarrow> real list list list list" where
  "starbar_tet star bar d1 d2 =
     map (\<lambda>sm. map (\<lambda>sr.
            map (\<lambda>i. map (\<lambda>l.
                   sum_list (map (\<lambda>b. sm ! b * sr ! b *
                                    (0.5 * (d2 ! b * (bar ! i ! b) * (bar ! l ! b)
                                            - (if i = l then 1 else 0) * d1 ! b)))
                               [0..<length d1]))
                 [0..<3]) [0..<3])
          star) star"

definition starbar ::
  "real list list list \<Rightarrow> real list list list \<Rightarrow> real list list \<Rightarrow> real list list
   \<Rightarrow> real list list list list list" where
  "starbar s_star s_bar dEdsbar dEdsbarbar =
     map (\<lambda>x. case x of (star, bar, d1, d2) \<Rightarrow> starbar_tet star bar d1 d2)
         (zip s_star (zip s_bar (zip dEdsbar dEdsbarbar)))"

text \<open>\<open>a.reshape(r, c, ...)\<close> of a flat list: \<open>r\<close> consecutive pieces of \<open>c\<close> entries.\<close>

definition rows_of :: "nat \<Rightarrow> nat \<Rightarrow> 'a list \<Rightarrow> 'a list list" where
  "rows_of r c xs = map (\<lambda>i. take c (drop (i * c) xs)) [0..<r]"

text \<open>\<open>reshape_stiffnes2_sparse\<close>: the dense \<open>(N_c * N_c, 9)\<close> array of the scattered
  blocks, reshaped to \<open>(N_c, N_c, 3, 3)\<close>.\<close>

definition reshape_stiffnes2_sparse :: "real list list list list list \<Rightarrow> fbf \<Rightarrow> error + fbf" where
  "reshape_stiffnes2_sparse total_stiffness M =
     ebind (coo_toarray (concat (concat (concat (concat total_stiffness))))
              (stiffness_distribute_coordinates M) (N_c M * N_c M, 9)) (\<lambda>dense.
       Inr (M\<lparr> K_glo := rows_of (N_c M) (N_c M) (map (rows_of 3 3) dense) \<rparr>))"

text \<open>\<open>reshape_stiffnes2_again\<close>:
  \<open>K_glo_conn[:] = K_glo[connections[:, 0], connections[:, 1], :, :]\<close>.\<close>

definition reshape_stiffnes2_again :: "fbf \<Rightarrow> error + fbf" where
  "reshape_stiffnes2_again M =
     ebind (emap (\<lambda>c. ebind (np_get (K_glo M) (fst c)) (\<lambda>row. np_get row (snd c)))
              (connections M)) (\<lambda>blocks.
       if length blocks = length (K_glo_conn M) then Inr (M\<lparr> K_glo_conn := blocks \<rparr>)
       else Inl ValueError)"

definition update_K_glo ::
  "real list list list \<Rightarrow> real list list list \<Rightarrow> real list list \<Rightarrow> real list list \<Rightarrow> fbf
   \<Rightarrow> error + fbf" where
  "update_K_glo s_star s_bar dEdsbar dEdsbarbar M =
     ebind (reshape_stiffnes2_sparse (starbar s_star s_bar dEdsbar dEdsbarbar) M)
       reshape_stiffnes2_again"

definition updateGloFAndK :: "material \<Rightarrow> fbf \<Rightarrow> error + fbf" where
  "updateGloFAndK lookUp M =
     ebind (get_star_and_bar M) (\<lambda>sb. case sb of (s_bar, s_star) \<Rightarrow>
     ebind (zzEpsilons3 lookUp s_bar (V M)) (\<lambda>e. case e of (epsilon_b, dEdsbar, dEdsbarbar) \<Rightarrow>
     ebind (update_energy epsilon_b M) (\<lambda>M1.
     ebind (update_f_glo s_star s_bar dEdsbar M1) (\<lambda>M2.
       update_K_glo s_star s_bar dEdsbar dEdsbarbar M2))))"

text \<open>The tables \<open>force_distribute_coordinates\<close> and \<open>stiffness_distribute_coordinates\<close>
  as \<open>computeConnections\<close> builds them from \<open>T\<close>: the node of every corner with the columns
  \<open>0, 1, 2\<close>, and \<open>T[t, r] + T[t, m] * N_c\<close> for every pair of corners \<open>(m, r)\<close> with the
  columns \<open>0 .. 8\<close>.\<close>

definition force_coordinates :: "int list list \<Rightarrow> int list \<times> int list" where
  "force_coordinates tets =
     (concat (map (\<lambda>c. [c, c, c]) (concat tets)), concat (map (\<lambda>c. [0, 1, 2]) (concat tets)))"

definition stiffness_coordinates :: "nat \<Rightarrow> int list list \<Rightarrow> int list \<times> int list" where
  "stiffness_coordinates n tets =
     (let idx = concat (map (\<lambda>tet. map (\<lambda>k. tet ! (k mod 4) + tet ! (k div 4) * int n) [0..<16])
                           tets)
      in (concat (map (\<lambda>q. replicate 9 q) idx), concat (map (\<lambda>q. map int [0..<9]) idx)))"

subsection \<open>relax\<close>

text \<open>An entry of \<open>relrec\<close>: \<open>[np.mean(self.K_glo), self.E_glo, np.sum(self.U[self.var]**2)]\<close>.\<close>

definition relrec_entry :: "fbf \<Rightarrow> error + real list" where
  "relrec_entry M =
     ebind (np_mean (concat (concat (concat (K_glo M))))) (\<lambda>k.
     ebind (bool_select (U M) (var M)) (\<lambda>moved.
       Inr [k, E_glo M, sum_mul moved moved]))"

text \<open>\<open>np.std\<close>: the root of the mean squared deviation from the mean.\<close>

definition np_std :: "real list \<Rightarrow> error + real" where
  "np_std xs =
     ebind (np_mean xs) (\<lambda>m. ebind (np_mean (map (\<lambda>x. (x - m) * (x - m)) xs)) (\<lambda>v. Inr (sqrt v)))"

text \<open>The test of convergence on the record: \<open>last_Es = np.array(relrec)[:-6:-1, 1]\<close>, the
  last five energies; the loop breaks when \<open>Estd / Emean < rel_conv_crit\<close>.\<close>

definition converged :: "real list list \<Rightarrow> real \<Rightarrow> error + bool" where
  "converged relrec rel_conv_crit =
     (let last_Es = map (\<lambda>row. row ! 1) (take 5 (rev relrec))
      in ebind (np_mean last_Es) (\<lambda>Emean.
         ebind (np_std last_Es) (\<lambda>sd.
           let Estd = sd / sqrt 5
           in if Emean = 0 then Inl NonFinite else Inr (Estd / Emean < rel_conv_crit))))"

text \<open>The loop \<open>for i in range(i_max)\<close> of \<open>relax\<close>: \<open>n\<close> iterations are left, \<open>i\<close> is the
  loop variable. The local variable \<open>relrec\<close> is \<open>None\<close> as long as it is not bound, which
  is the case when no \<open>relrecname\<close> was given. The result is the error raised, if any,
  and the state of the object: a call that raises has written neither \<open>U\<close> nor \<open>var\<close>, so
  the state before the call stands for the state at the error.\<close>

fun relax_loop ::
  "material \<Rightarrow> real \<Rightarrow> real \<Rightarrow> nat \<Rightarrow> nat \<Rightarrow> real list list option \<Rightarrow> fbf
   \<Rightarrow> error option \<times> fbf" where
  "relax_loop lookUp stepper rel_conv_crit 0 i relrec M = (None, M)"
| "relax_loop lookUp stepper rel_conv_crit (Suc n) i relrec M =
     (case solve_CG stepper M of
        Inl e \<Rightarrow> (Some e, M)
      | Inr (du, M1) \<Rightarrow>
     (case updateGloFAndK lookUp M1 of
        Inl e \<Rightarrow> (Some e, M1)
      | Inr M2 \<Rightarrow>
     (case ebind (bool_select (f_glo M2) (var M2)) (\<lambda>ff.
           ebind (bool_select (U M2) (var M2)) (\<lambda>sum_u.
             case relrec of
               None \<Rightarrow> Inr None
             | Some rec \<Rightarrow> ebind (relrec_entry M2) (\<lambda>e. Inr (Some (rec @ [e]))))) of
        Inl e \<Rightarrow> (Some e, M2)
      | Inr relrec' \<Rightarrow>
          if 6 < i
          then (case relrec' of
                  None \<Rightarrow> (Some UnboundLocalError, M2)
                | Some rec \<Rightarrow>
                    (case converged rec rel_conv_crit of
                       Inl e \<Rightarrow> (Some e, M2)
                     | Inr True \<Rightarrow> (None, M2)
                     | Inr False \<Rightarrow>
                         relax_loop lookUp stepper rel_conv_crit n (Suc i) relrec' M2))
          else relax_loop lookUp stepper rel_conv_crit n (Suc i) relrec' M2)))"

text \<open>\<open>relax(stepper, i_max, rel_conv_crit, relrecname)\<close>; the defaults are
  \<open>stepper = 0.066\<close>, \<open>i_max = 300\<close>, \<open>rel_conv_crit = 0.01\<close> and \<open>relrecname = None\<close>.\<close>

definition relax ::
  "material \<Rightarrow> real \<Rightarrow> nat \<Rightarrow> real \<Rightarrow> string option \<Rightarrow> fbf \<Rightarrow> error option \<times> fbf" where
  "relax lookUp stepper i_max rel_conv_crit relrecname M =
     (case updateGloFAndK lookUp M of
        Inl e \<Rightarrow> (Some e, M)
      | Inr M0 \<Rightarrow>
          (case (case relrecname of
                   None \<Rightarrow> Inr None
                 | Some name \<Rightarrow> ebind (relrec_entry M0) (\<lambda>e. Inr (Some [e]))) of
             Inl e \<Rightarrow> (Some e, M0)
           | Inr relrec \<Rightarrow> relax_loop lookUp stepper rel_conv_crit i_max 0 relrec M0))"

text \<open>The frame of a step: \<open>var\<close> and the number of rows of \<open>U\<close> stay, and so does every
  row of \<open>U\<close> that belongs to a fixed node.\<close>

definition fixed_rows_kept :: "fbf \<Rightarrow> fbf \<Rightarrow> bool" where
  "fixed_rows_kept M M' =
     (var M' = var M \<and> length (U M') = length (U M) \<and>
      (\<forall>n < length (U M). \<not> var M ! n \<longrightarrow> U M' ! n = U M ! n))"

text \<open>A linear spring as material: \<open>w = d * d / 2\<close>, \<open>w' = d\<close>, \<open>w'' = 1\<close>.\<close>

definition spring :: material where
  "spring d = (d * d / 2, d, 1)"

text \<open>The unit tetrahedron after \<open>computePhi\<close>, with one beam along x; the node 1 is free
  and pulled with the external force \<open>(-1, 0, 0)\<close>, the other nodes are fixed.\<close>

definition pulled_tet :: fbf where
  "pulled_tet =
     unit_mesh
     \<lparr> V := [1 / 6], Phi := [Chi],
       var := [False, True, False, False],
       f_ext := [[0, 0, 0], [-1, 0, 0], [0, 0, 0], [0, 0, 0]],
       connections := [(1, 0), (1, 1), (1, 2), (1, 3)],
       K_glo_conn := zeros3 4 3 3,
       connections_sparse_indices := sparse_indices [(1, 0), (1, 1), (1, 2), (1, 3)],
       force_distribute_coordinates := force_coordinates [[0, 1, 2, 3]],
       stiffness_distribute_coordinates := stiffness_coordinates 4 [[0, 1, 2, 3]],
       s := [[1, 0, 0]], N_b := 1 \<rparr>"

text \<open>The states of that tetrahedron in which the free node 1 is displaced by \<open>a\<close> along
  x and pulled with the external force \<open>fe\<close>; the arrays the kernel overwrites are only
  fixed in their shapes.\<close>

definition tet_state :: "real \<Rightarrow> real list \<Rightarrow> fbf \<Rightarrow> bool" where
  "tet_state a fe M =
     (T M = [[0, 1, 2, 3]] \<and> Phi M = [Chi] \<and> V M = [1 / 6] \<and> s M = [[1, 0, 0]] \<and>
      var M = [False, True, False, False] \<and>
      U M = [[0, 0, 0], [a, 0, 0], [0, 0, 0], [0, 0, 0]] \<and>
      f_ext M = [[0, 0, 0], fe, [0, 0, 0], [0, 0, 0]] \<and>
      N_c M = 4 \<and>
      connections M = [(1, 0), (1, 1), (1, 2), (1, 3)] \<and>
      connections_sparse_indices M = sparse_indices [(1, 0), (1, 1), (1, 2), (1, 3)] \<and>
      force_distribute_coordinates M = force_coordinates [[0, 1, 2, 3]] \<and>
      stiffness_distribute_coordinates M = stiffness_coordinates 4 [[0, 1, 2, 3]] \<and>
      length (E M) = 1 \<and> shape2 (f_glo M) = (4, 3) \<and> length (K_glo_conn M) = 4)"

text \<open>The stiffness of that tetrahedron at rest, for the material \<open>spring\<close>: it couples the
  x components of the nodes 0 and 1 (\<open>K_glo\<close>); \<open>K_glo_conn\<close> holds the four blocks of
  the free node 1.\<close>

definition K_rest :: "real list list list list" where
  "K_rest = map (\<lambda>cm. map (\<lambda>cr. [[cm * cr / 12, 0, 0], [0, 0, 0], [0, 0, 0]]) [-1, 1, 0, 0])
              [-1, 1, 0, 0]"

definition K_rest_conn :: "real list list list" where
  "K_rest_conn = [[[- (1 / 12), 0, 0], [0, 0, 0], [0, 0, 0]],
                  [[1 / 12, 0, 0], [0, 0, 0], [0, 0, 0]],
                  [[0, 0, 0], [0, 0, 0], [0, 0, 0]],
                  [[0, 0, 0], [0, 0, 0], [0, 0, 0]]]"

text \<open>The tetrahedron with no external force, before and after \<open>updateGloFAndK\<close>.\<close>

definition rest_tet :: fbf where
  "rest_tet = pulled_tet\<lparr> f_ext := zeros2 4 3 \<rparr>"

definition rest_tet_updated :: fbf where
  "rest_tet_updated = rest_tet\<lparr> K_glo := K_rest, K_glo_conn := K_rest_conn \<rparr>"

text \<open>The pulled tetrahedron after \<open>updateGloFAndK\<close>, and after the step of \<open>solve_CG\<close>
  with \<open>stepper = 1 / 12\<close> that follows.\<close>

definition pulled_tet_updated :: fbf where
  "pulled_tet_updated = pulled_tet\<lparr> K_glo := K_rest, K_glo_conn := K_rest_conn \<rparr>"

definition pulled_tet_moved :: fbf where
  "pulled_tet_moved = pulled_tet_updated\<lparr> U := [[0, 0, 0], [1, 0, 0], [0, 0, 0], [0, 0, 0]] \<rparr>"

section \<open>Facts about the array helpers\<close>

lemma ebind_Inr: "ebind m k = Inr y \<longleftrightarrow> (\<exists>x. m = Inr x \<and> k x = Inr y)"
  by (cases m) (simp_all add: ebind_def)

lemma emap_Inr:
  "emap g xs = Inr ys \<longleftrightarrow> list_all2 (\<lambda>x y. g x = Inr y) xs ys"
proof (induction xs arbitrary: ys)
  case Nil
  then show ?case by auto
next
  case (Cons x xs)
  then show ?case by (cases ys) (auto simp: ebind_Inr)
qed

lemma np_take_Inr:
  "np_take xs js = Inr ys \<longleftrightarrow> list_all2 (\<lambda>j y. np_get xs j = Inr y) js ys"
  by (simp add: np_take_def emap_Inr)

section \<open>The index shift of setMeshTets\<close>

text \<open>
  C9. \<open>setMeshTets\<close> stores the input with one subtracted from every entry, whatever the
  input is: through the API directly, and through \<open>loadMeshTets\<close> whenever the file passes
  the four-column assertion. Column count and index base play no role in the shift.
\<close>

theorem setMeshTets_shifts_every_index:
  "T (setMeshTets data M) = map (map (\<lambda>x. x - 1)) data \<and>
   (\<forall>M'. loadMeshTets data M = Inr M' \<longrightarrow> T M' = map (map (\<lambda>x. x - 1)) data)"
  by (auto simp: setMeshTets_def loadMeshTets_def split: list.splits if_splits)

theorem setMeshTets_shifts_every_index_witness:
  "loadMeshTets [[0, 1, 2, 3]] new_fbf = Inr (setMeshTets [[0, 1, 2, 3]] new_fbf) \<and>
   T (setMeshTets [[0, 1, 2, 3]] new_fbf) = [[-1, 0, 1, 2]]"
  using setMeshTets_shifts_every_index [of "[[0, 1, 2, 3]]" new_fbf]
  by (simp add: loadMeshTets_def)

section \<open>The two implementations of the stiffness operator\<close>

lemma np_take_valid:
  "\<forall>j \<in> set js. 0 \<le> j \<and> j < int (length u) \<Longrightarrow> np_take u js = Inr (map (\<lambda>j. u ! nat j) js)"
  by (induction js) (auto simp: np_take_def np_get_def np_index_def ebind_def)

lemma add_at_valid:
  "\<forall>i \<in> set js. 0 \<le> i \<and> i < int (length f) \<Longrightarrow> length vals = length js \<Longrightarrow>
   add_at f js vals = Inr (foldl row_add f (zip js vals))"
proof (induction f js vals rule: add_at.induct)
  case (1 f vals)
  then show ?case by simp
next
  case (2 f i js)
  then show ?case by simp
next
  case (3 f i js v vals)
  then show ?case by (simp add: row_add_def np_index_def)
qed

lemma length3E:
  assumes "length (v :: 'a list) = 3"
  obtains a b c where "v = [a, b, c]"
  using assms by (metis (no_types, opaque_lifting) length_0_conv length_Suc_conv numeral_3_eq_3)

lemma coo_three:
  assumes "length v = 3" "0 \<le> i" "nat i < length B" "length (B ! nat i) = 3"
  shows "foldl coo_add B (zip v (zip [i, i, i] [0, 1, 2])) = row_add B (i, v)"
proof -
  obtain a b c where v: "v = [a, b, c]" using assms(1) by (rule length3E)
  obtain x y z where r: "B ! nat i = [x, y, z]" using assms(4) by (rule length3E)
  show ?thesis using assms(3) by (simp add: v r coo_add_def row_add_def)
qed

lemma row_add_length: "length (row_add B e) = length B"
  by (simp add: row_add_def split: prod.splits)

lemma row_add_rows:
  "\<forall>r \<in> set B. length r = 3 \<Longrightarrow> length v = 3 \<Longrightarrow> \<forall>r \<in> set (row_add B (i, v)). length r = 3"
proof (cases "nat i < length B")
  case True
  assume a: "\<forall>r \<in> set B. length r = 3" "length v = 3"
  then have "length (B ! nat i) = 3" using True by simp
  then show ?thesis using a
    by (auto simp: row_add_def dest!: set_update_subset_insert [THEN subsetD])
next
  case False
  assume "\<forall>r \<in> set B. length r = 3"
  then show ?thesis using False by (simp add: row_add_def list_update_beyond)
qed

lemma coo_fold_rows:
  "\<forall>i \<in> set js. 0 \<le> i \<and> i < int (length B) \<Longrightarrow> length vals = length js \<Longrightarrow>
   \<forall>v \<in> set vals. length v = 3 \<Longrightarrow> \<forall>r \<in> set B. length r = 3 \<Longrightarrow>
   foldl coo_add B (zip (concat vals)
      (zip (concat (map (\<lambda>i. [i, i, i]) js)) (concat (map (\<lambda>i. [0, 1, 2]) js))))
   = foldl row_add B (zip js vals)"
proof (induction js arbitrary: B vals)
  case Nil
  then show ?case by simp
next
  case (Cons i js)
  then obtain v vs where vals: "vals = v # vs" by (cases vals) auto
  have lv: "length v = 3" using Cons.prems(3) vals by simp
  then obtain a b c where v: "v = [a, b, c]" by (rule length3E)
  have i: "0 \<le> i" "nat i < length B" using Cons.prems(1) by auto
  then have ri: "length (B ! nat i) = 3" using Cons.prems(4) by simp
  have step: "foldl coo_add B (zip v (zip [i, i, i] [0, 1, 2])) = row_add B (i, v)"
    by (rule coo_three [OF lv i ri])
  have rows': "\<forall>r \<in> set (row_add B (i, v)). length r = 3"
    by (rule row_add_rows [OF Cons.prems(4) lv])
  have IH: "foldl coo_add (row_add B (i, v)) (zip (concat vs)
      (zip (concat (map (\<lambda>i. [i, i, i]) js)) (concat (map (\<lambda>i. [0, 1, 2]) js))))
     = foldl row_add (row_add B (i, v)) (zip js vs)"
    using Cons.prems vals by (intro Cons.IH rows') (auto simp: row_add_length)
  show ?case using step IH by (simp add: vals v)
qed

lemma foldl_row_add_length: "length (foldl row_add B es) = length B"
  by (induction es arbitrary: B) (simp_all add: row_add_length)

lemma foldl_row_add_nth:
  "\<forall>e \<in> set es. 0 \<le> fst e \<and> nat (fst e) < length B \<and> length (snd e) = 3 \<Longrightarrow>
   \<forall>r \<in> set B. length r = 3 \<Longrightarrow> i < length B \<Longrightarrow> a < 3 \<Longrightarrow>
   foldl row_add B es ! i ! a
     = B ! i ! a + sum_list (map (\<lambda>e. snd e ! a) (filter (\<lambda>e. fst e = int i) es)) \<and>
   length (foldl row_add B es ! i) = 3"
proof (induction es arbitrary: B)
  case Nil
  then show ?case by simp
next
  case (Cons e es)
  obtain j v where e: "e = (j, v)" by (cases e)
  have lv: "length v = 3" and j: "0 \<le> j" "nat j < length B" using Cons.prems(1) e by auto
  have rows': "\<forall>r \<in> set (row_add B (j, v)). length r = 3"
    by (rule row_add_rows [OF Cons.prems(2) lv])
  have IH: "foldl row_add (row_add B (j, v)) es ! i ! a
     = row_add B (j, v) ! i ! a + sum_list (map (\<lambda>e. snd e ! a) (filter (\<lambda>e. fst e = int i) es)) \<and>
   length (foldl row_add (row_add B (j, v)) es ! i) = 3"
    using Cons.prems by (intro Cons.IH rows') (auto simp: row_add_length)
  have li: "length (B ! i) = 3" using Cons.prems by simp
  have hd: "row_add B (j, v) ! i ! a = B ! i ! a + (if j = int i then v ! a else 0)"
    using j lv li Cons.prems(3,4) by (auto simp: row_add_def nth_list_update)
  show ?case using IH hd by (simp add: e)
qed

lemma zip_fst_einsum:
  "length K = length conns \<Longrightarrow>
   zip (map fst conns) (einsum_nij_nj K (map (\<lambda>j. u ! nat j) (map snd conns)))
   = map (\<lambda>e. (fst (fst e), map (\<lambda>row. imul row (u ! nat (snd (fst e)))) (snd e))) (zip conns K)"
  by (induction conns K rule: list_induct2') (auto simp: einsum_nij_nj_def)

lemma einsum_rows:
  "length K = length w \<Longrightarrow> \<forall>Kc \<in> set K. length Kc = 3 \<Longrightarrow>
   length (einsum_nij_nj K w) = length w \<and> (\<forall>v \<in> set (einsum_nij_nj K w). length v = 3)"
  by (induction K w rule: list_induct2') (auto simp: einsum_nij_nj_def)

lemma zeros_of_Nx3: "is_Nx3 n f \<Longrightarrow> map (map (\<lambda>x. 0)) f = zeros2 n 3"
  unfolding is_Nx3_def zeros2_def
  by (auto intro!: nth_equalityI simp: map_replicate_const [symmetric]
        simp del: map_replicate_const replicate_eq_replicate)

lemma shape2_Nx3: "is_Nx3 n u \<Longrightarrow> 0 < n \<Longrightarrow> shape2 u = (n, 3)"
  by (cases u) (auto simp: is_Nx3_def shape2_def)

lemma sum_filter_map:
  "(\<And>z. z \<in> set zs \<Longrightarrow> h (g z) = h' z) \<Longrightarrow> (\<And>z. P (g z) = P' z) \<Longrightarrow>
   sum_list (map h (filter P (map g zs))) = sum_list (map h' (filter P' zs))"
  by (induction zs) auto

lemma rowfold_is_spec:
  assumes ok: "conn_ok M n" and u: "is_Nx3 n u"
  shows "foldl row_add (zeros2 n 3)
           (zip (map fst (connections M))
                (einsum_nij_nj (K_glo_conn M) (map (\<lambda>j. u ! nat j) (map snd (connections M)))))
         = Ku_spec (connections M) (K_glo_conn M) u"
  (is "foldl row_add ?Z ?es = ?rhs")
proof (rule nth_equalityI)
  show len: "length (foldl row_add ?Z ?es) = length ?rhs"
    using u by (simp add: foldl_row_add_length zeros2_def Ku_spec_def is_Nx3_def)
  have lK: "length (K_glo_conn M) = length (connections M)" using ok by (simp add: conn_ok_def)
  have es: "?es = map (\<lambda>e. (fst (fst e), map (\<lambda>row. imul row (u ! nat (snd (fst e)))) (snd e)))
                     (zip (connections M) (K_glo_conn M))"
    by (rule zip_fst_einsum [OF lK])
  have valid: "\<forall>e \<in> set ?es. 0 \<le> fst e \<and> nat (fst e) < length ?Z \<and> length (snd e) = 3"
    unfolding es using ok by (auto simp: conn_ok_def zeros2_def elim!: in_set_zipE)
  have Zrows: "\<forall>r \<in> set ?Z. length r = 3" by (simp add: zeros2_def)
  fix i assume "i < length (foldl row_add ?Z ?es)"
  then have i: "i < n" by (simp add: foldl_row_add_length zeros2_def)
  then have i': "i < length ?Z" by (simp add: zeros2_def)
  show "foldl row_add ?Z ?es ! i = ?rhs ! i"
  proof (rule nth_equalityI)
    have "length (foldl row_add ?Z ?es ! i) = 3"
      using foldl_row_add_nth [OF valid Zrows i', of 0] by simp
    then show "length (foldl row_add ?Z ?es ! i) = length (?rhs ! i)"
      using i u by (simp add: Ku_spec_def is_Nx3_def)
  next
    fix a assume "a < length (foldl row_add ?Z ?es ! i)"
    then have a: "a < 3" using foldl_row_add_nth [OF valid Zrows i', of 0] by simp
    have K3: "\<And>e. e \<in> set (zip (connections M) (K_glo_conn M)) \<Longrightarrow> length (snd e) = 3"
      using ok by (auto simp: conn_ok_def elim!: in_set_zipE)
    have "foldl row_add ?Z ?es ! i ! a
          = ?Z ! i ! a + sum_list (map (\<lambda>e. snd e ! a) (filter (\<lambda>e. fst e = int i) ?es))"
      using foldl_row_add_nth [OF valid Zrows i' a] by simp
    also have "?Z ! i ! a = 0" using i a by (simp add: zeros2_def)
    also have "sum_list (map (\<lambda>e. snd e ! a) (filter (\<lambda>e. fst e = int i) ?es))
       = sum_list (map (\<lambda>e. imul (snd e ! a) (u ! nat (snd (fst e))))
                       (filter (\<lambda>e. fst (fst e) = int i) (zip (connections M) (K_glo_conn M))))"
      unfolding es by (rule sum_filter_map) (use K3 a in auto)
    finally show "foldl row_add ?Z ?es ! i ! a = ?rhs ! i ! a"
      using i a u by (simp add: Ku_spec_def is_Nx3_def)
  qed
qed

lemma mulK_is_spec:
  assumes ok: "conn_ok M n" and u: "is_Nx3 n u" and f: "is_Nx3 n f"
  shows "mulK M f u = Inr (Ku_spec (connections M) (K_glo_conn M) u)"
proof -
  let ?w = "map (\<lambda>j. u ! nat j) (map snd (connections M))"
  have take: "np_take u (map snd (connections M)) = Inr ?w"
    using ok u by (intro np_take_valid) (auto simp: conn_ok_def is_Nx3_def)
  have lK: "length (K_glo_conn M) = length ?w" using ok by (simp add: conn_ok_def)
  have er: "length (einsum_nij_nj (K_glo_conn M) ?w) = length ?w"
    using einsum_rows [OF lK] ok by (simp add: conn_ok_def)
  have "add_at (zeros2 n 3) (map fst (connections M)) (einsum_nij_nj (K_glo_conn M) ?w)
        = Inr (foldl row_add (zeros2 n 3)
                 (zip (map fst (connections M)) (einsum_nij_nj (K_glo_conn M) ?w)))"
    using ok er by (intro add_at_valid) (auto simp: conn_ok_def zeros2_def)
  then show ?thesis
    using rowfold_is_spec [OF ok u] by (simp add: mulK_def take zeros_of_Nx3 [OF f])
qed

lemma sparse_indices_lengths:
  "length (fst (sparse_indices conns)) = 3 * length conns \<and>
   length (snd (sparse_indices conns)) = 3 * length conns"
  by (induction conns) (auto simp: sparse_indices_def)

lemma concat_length3: "\<forall>v \<in> set vals. length v = 3 \<Longrightarrow> length (concat vals) = 3 * length vals"
  by (induction vals) auto

lemma mulK_sparse_is_spec:
  assumes ok: "conn_ok M n" and u: "is_Nx3 n u" and f: "is_Nx3 n f"
  shows "mulK_sparse M f u = Inr (Ku_spec (connections M) (K_glo_conn M) u)"
proof (cases "connections M = []")
  case True
  have "Ku_spec [] (K_glo_conn M) u = zeros2 n 3"
    using u by (auto simp: Ku_spec_def zeros2_def is_Nx3_def intro!: nth_equalityI)
  moreover have "K_glo_conn M = []" using ok True by (simp add: conn_ok_def)
  moreover have "connections_sparse_indices M = ([], [])"
    using ok True by (simp add: conn_ok_def sparse_indices_def)
  moreover have "shape2 f = shape2 u"
    using u f by (cases u; cases f) (auto simp: is_Nx3_def shape2_def)
  moreover have "zeros2 (fst (shape2 u)) (snd (shape2 u)) = zeros2 n 3"
    using u by (cases u) (auto simp: is_Nx3_def shape2_def zeros2_def)
  ultimately show ?thesis
    by (auto simp: mulK_sparse_def True np_take_def einsum_nij_nj_def coo_toarray_def
          split: prod.splits)
next
  case False
  then obtain c where c: "c \<in> set (connections M)" by (cases "connections M") auto
  then have n: "0 < n" using ok by (auto simp: conn_ok_def)
  have su: "shape2 u = (n, 3)" and sf: "shape2 f = (n, 3)"
    using shape2_Nx3 u f n by auto
  let ?c1 = "map fst (connections M)"
  let ?w = "map (\<lambda>j. u ! nat j) (map snd (connections M))"
  let ?vals = "einsum_nij_nj (K_glo_conn M) ?w"
  have take: "np_take u (map snd (connections M)) = Inr ?w"
    using ok u by (intro np_take_valid) (auto simp: conn_ok_def is_Nx3_def)
  have lK: "length (K_glo_conn M) = length ?w" using ok by (simp add: conn_ok_def)
  have er: "length ?vals = length ?w" "\<forall>v \<in> set ?vals. length v = 3"
    using einsum_rows [OF lK] ok by (simp_all add: conn_ok_def)
  have csi: "connections_sparse_indices M
       = (concat (map (\<lambda>i. [i, i, i]) ?c1), concat (map (\<lambda>i. [0, 1, 2]) ?c1))"
    using ok by (simp add: conn_ok_def sparse_indices_def comp_def)
  have lens: "length (concat (map (\<lambda>i. [i, i, i]) ?c1)) = length (concat ?vals)"
             "length (concat (map (\<lambda>i. [0, 1, 2::int]) ?c1)) = length (concat ?vals)"
    using sparse_indices_lengths [of "connections M"] concat_length3 [OF er(2)] er(1)
    by (simp_all add: sparse_indices_def comp_def)
  have rows_ok: "\<not> (\<exists>r \<in> set (concat (map (\<lambda>i. [i, i, i]) ?c1)). r < 0 \<or> int n \<le> r)"
    using ok by (auto simp: conn_ok_def)
  have cols_ok: "\<not> (\<exists>c \<in> set (concat (map (\<lambda>i. [0, 1, 2::int]) ?c1)). c < 0 \<or> int 3 \<le> c)"
    by auto
  have coo: "coo_toarray (concat ?vals) (connections_sparse_indices M) (n, 3)
      = Inr (foldl coo_add (zeros2 n 3) (zip (concat ?vals)
          (zip (concat (map (\<lambda>i. [i, i, i]) ?c1)) (concat (map (\<lambda>i. [0, 1, 2]) ?c1)))))"
    unfolding coo_toarray_def csi using lens rows_ok cols_ok by simp
  have fold: "foldl coo_add (zeros2 n 3) (zip (concat ?vals)
          (zip (concat (map (\<lambda>i. [i, i, i]) ?c1)) (concat (map (\<lambda>i. [0, 1, 2]) ?c1))))
        = foldl row_add (zeros2 n 3) (zip ?c1 ?vals)"
    using ok er by (intro coo_fold_rows) (auto simp: conn_ok_def zeros2_def)
  have "mulK_sparse M f u
        = (case coo_toarray (concat ?vals) (connections_sparse_indices M) (n, 3) of
             Inl e \<Rightarrow> Inl e
           | Inr a \<Rightarrow> if shape2 f = shape2 u then Inr a else Inl ValueError)"
    by (simp only: mulK_sparse_def take su Let_def sum.case)
  also have "\<dots> = Inr (foldl row_add (zeros2 n 3) (zip ?c1 ?vals))"
    by (simp only: coo fold sum.case su sf refl if_True)
  finally show ?thesis
    by (simp only: rowfold_is_spec [OF ok u])
qed

lemma Ku_spec_zero_row:
  assumes "i < length u" "int i \<notin> fst ` set conns"
  shows "Ku_spec conns K u ! i = [0, 0, 0]"
proof -
  have "filter (\<lambda>e. fst (fst e) = int i) (zip conns K) = []"
    using assms(2) by (force simp: filter_empty_conv elim!: in_set_zipE)
  moreover have "[0..<3] = [0, 1, 2::nat]" by code_simp
  ultimately show ?thesis using assms(1) by (simp add: Ku_spec_def)
qed

text \<open>A connection that starts at a negative index: \<open>coo_matrix\<close> refuses the table, so
  \<open>mulK_sparse\<close> raises ValueError whenever the rows of \<open>u\<close> can be gathered, where
  \<open>np.add.at\<close> in \<open>mulK\<close> counts the index from the end.\<close>

lemma mulK_sparse_negative_row:
  assumes "connections_sparse_indices M = sparse_indices (connections M)"
    and "np_take u (map snd (connections M)) = Inr w"
    and "c \<in> set (connections M)" and "fst c < 0"
  shows "mulK_sparse M f u = Inl ValueError"
proof -
  obtain row col where rc: "sparse_indices (connections M) = (row, col)"
    by (cases "sparse_indices (connections M)")
  have "fst c \<in> set (fst (sparse_indices (connections M)))"
    using assms(3) by (auto simp: sparse_indices_def)
  then have neg: "\<exists>r \<in> set row. r < 0" using assms(4) rc by auto
  obtain nr nc where sh: "shape2 u = (nr, nc)" by (cases "shape2 u")
  have "coo_toarray d (row, col) (nr, nc) = Inl ValueError" for d
    using neg by (auto simp: coo_toarray_def)
  then show ?thesis
    using assms(1,2) rc sh by (simp add: mulK_sparse_def Let_def)
qed

text \<open>
  C10. The two operators agree on the tables of a mesh whose node numbers are in range,
  not on every table the code builds. On a state whose connection tables were built by
  \<open>computeConnections\<close> and hold indices \<open>0 \<le> c < n\<close> only, and for arrays \<open>u\<close> and \<open>f\<close> of
  shape \<open>(n, 3)\<close>, \<open>mulK\<close> and \<open>mulK_sparse\<close> return the same array: row \<open>i\<close> is the sum of
  \<open>K_glo_conn[k] . u[j]\<close> over the connections \<open>k = (i, j)\<close>, and a row at which no
  connection starts is zero. With a connection that starts at \<open>-1\<close> the two differ:
  \<open>mulK\<close> adds to the last row and returns, \<open>mulK_sparse\<close> raises ValueError.
\<close>

theorem mulK_sparse_equals_mulK:
  assumes "conn_ok M n" and "is_Nx3 n u" and "is_Nx3 n f"
  shows "mulK M f u = mulK_sparse M f u \<and>
         mulK M f u = Inr (Ku_spec (connections M) (K_glo_conn M) u) \<and>
         (\<forall>i < n. int i \<notin> fst ` set (connections M) \<longrightarrow>
            Ku_spec (connections M) (K_glo_conn M) u ! i = [0, 0, 0])"
  using mulK_is_spec [OF assms] mulK_sparse_is_spec [OF assms] Ku_spec_zero_row assms(2)
  by (simp add: is_Nx3_def)

theorem mulK_sparse_equals_mulK_witness:
  "conn_ok two_nodes 2 \<and> is_Nx3 2 [[1, 2, 3], [4, 5, 6]] \<and> is_Nx3 2 (zeros2 2 3) \<and>
   mulK two_nodes (zeros2 2 3) [[1, 2, 3], [4, 5, 6]] = Inr [[16, 4, 15], [8, 10, 12]] \<and>
   mulK_sparse two_nodes (zeros2 2 3) [[1, 2, 3], [4, 5, 6]] = Inr [[16, 4, 15], [8, 10, 12]]"
proof -
  have ok: "conn_ok two_nodes 2"
    by (simp add: conn_ok_def two_nodes_def new_fbf_def)
  have u: "is_Nx3 2 [[1, 2, 3], [4, 5, 6]]" by (simp add: is_Nx3_def)
  have f: "is_Nx3 2 (zeros2 2 3)" by (simp add: is_Nx3_def zeros2_def)
  have v: "mulK two_nodes (zeros2 2 3) [[1, 2, 3], [4, 5, 6]] = Inr [[16, 4, 15], [8, 10, 12]]"
    by code_simp
  have eq: "mulK two_nodes (zeros2 2 3) [[1, 2, 3], [4, 5, 6]]
            = mulK_sparse two_nodes (zeros2 2 3) [[1, 2, 3], [4, 5, 6]]"
    using mulK_sparse_equals_mulK [OF ok u f] by (rule conjunct1)
  have v': "mulK_sparse two_nodes (zeros2 2 3) [[1, 2, 3], [4, 5, 6]]
            = Inr [[16, 4, 15], [8, 10, 12]]"
    by (simp only: eq [symmetric] v)
  show ?thesis using ok u f v v' by simp
qed

theorem mulK_wraps_negative_row:
  "mulK wrapped_node (zeros2 2 3) [[1, 2, 3], [4, 5, 6]] = Inr [[0, 0, 0], [1, 4, 9]] \<and>
   mulK_sparse wrapped_node (zeros2 2 3) [[1, 2, 3], [4, 5, 6]] = Inl ValueError"
  by code_simp

section \<open>The shape tensors: computePhi\<close>

lemma lessThan4: "{..<4::nat} = {0, 1, 2, 3}" by auto

lemma Chi_rows_cancel_literal:
  assumes "j < 3"
  shows "column_sum (matmul Chi [[a, b, c], [d, e, f], [g, h, i]]) j = 0"
proof -
  have "j = 0 \<or> j = 1 \<or> j = 2" using assms by auto
  then show ?thesis
    by (auto simp: column_sum_def lessThan4 matmul_def Chi_def imul_def)
qed

lemma Chi_rows_cancel:
  assumes "j < 3"
  shows "column_sum (matmul Chi (invert B)) j = 0"
  unfolding invert_def Let_def by (rule Chi_rows_cancel_literal [OF assms])

lemma computePhi_step_effect:
  assumes "computePhi_step t M = Inr M1"
  shows "T M1 = T M \<and> R M1 = R M \<and> N_T M1 = N_T M \<and>
         length (V M1) = length (V M) \<and> length (Phi M1) = length (Phi M) \<and>
         t < length (V M) \<and>
         (\<forall>t'. t' \<noteq> t \<longrightarrow> V M1 ! t' = V M ! t' \<and> Phi M1 ! t' = Phi M ! t') \<and>
         (V M1 ! t = 0 \<longrightarrow> Phi M1 = Phi M) \<and>
         (V M1 ! t \<noteq> 0 \<longrightarrow> (\<exists>B. Phi M1 ! t = matmul Chi (invert B)))"
  using assms
  by (auto simp: computePhi_step_def ebind_Inr Let_def split: if_splits)


lemma computePhi_loop_sums:
  assumes "computePhi_loop ts M = Inr M'"
    and "t \<in> set ts \<or> (V M ! t \<noteq> 0 \<longrightarrow> (\<forall>j < 3. column_sum (Phi M ! t) j = 0))"
  shows "V M' ! t \<noteq> 0 \<longrightarrow> (\<forall>j < 3. column_sum (Phi M' ! t) j = 0)"
  using assms
proof (induction ts arbitrary: M)
  case Nil
  then show ?case by simp
next
  case (Cons t0 ts)
  from Cons.prems(1) obtain M1 where
    step: "computePhi_step t0 M = Inr M1" and rest: "computePhi_loop ts M1 = Inr M'"
    by (auto simp: ebind_Inr)
  note eff = computePhi_step_effect [OF step]
  have "t \<in> set ts \<or> (V M1 ! t \<noteq> 0 \<longrightarrow> (\<forall>j < 3. column_sum (Phi M1 ! t) j = 0))"
  proof (cases "t = t0")
    case True
    show ?thesis using eff Chi_rows_cancel unfolding True by auto
  next
    case False
    then show ?thesis using eff Cons.prems(2) by auto
  qed
  then show ?case by (rule Cons.IH [OF rest])
qed

text \<open>
  C7. After \<open>computePhi\<close> has run, the four rows of the shape tensor of every tetrahedron
  with a volume other than zero add up to the zero vector: each of the three column sums
  is 0.
\<close>

theorem computePhi_rows_sum_to_zero:
  assumes "computePhi M = Inr M'" and "t < N_T M" and "V M' ! t \<noteq> 0" and "j < 3"
  shows "column_sum (Phi M' ! t) j = 0"
  using computePhi_loop_sums [of "[0..<N_T M]" M M' t] assms
  by (simp add: computePhi_def)

theorem computePhi_rows_sum_to_zero_witness:
  "computePhi unit_mesh = Inr (unit_mesh\<lparr> V := [1 / 6], Phi := [Chi] \<rparr>) \<and>
   0 < N_T unit_mesh \<and> V (unit_mesh\<lparr> V := [1 / 6], Phi := [Chi] \<rparr>) ! 0 \<noteq> 0 \<and>
   column_sum (Phi (unit_mesh\<lparr> V := [1 / 6], Phi := [Chi] \<rparr>) ! 0) 2 = 0"
proof -
  have run: "computePhi unit_mesh = Inr (unit_mesh\<lparr> V := [1 / 6], Phi := [Chi] \<rparr>)"
    by code_simp
  have n: "0 < N_T unit_mesh" by code_simp
  have v: "V (unit_mesh\<lparr> V := [1 / 6], Phi := [Chi] \<rparr>) ! 0 \<noteq> 0" by simp
  show ?thesis
    using computePhi_rows_sum_to_zero [OF run n v, of 2] run n v by simp
qed

lemma computePhi_loop_frame:
  assumes "computePhi_loop ts M = Inr M'" and "distinct ts"
  shows "(t \<in> set ts \<longrightarrow> (V M' ! t = 0 \<longrightarrow> Phi M' ! t = Phi M ! t)) \<and>
         (t \<notin> set ts \<longrightarrow> V M' ! t = V M ! t \<and> Phi M' ! t = Phi M ! t)"
  using assms
proof (induction ts arbitrary: M)
  case Nil
  then show ?case by simp
next
  case (Cons t0 ts)
  from Cons.prems(1) obtain M1 where
    step: "computePhi_step t0 M = Inr M1" and rest: "computePhi_loop ts M1 = Inr M'"
    by (auto simp: ebind_Inr)
  note eff = computePhi_step_effect [OF step]
  have d: "distinct ts" "t0 \<notin> set ts" using Cons.prems(2) by auto
  note IH = Cons.IH [OF rest d(1)]
  show ?case
  proof (cases "t = t0")
    case True
    then have "V M' ! t = V M1 ! t \<and> Phi M' ! t = Phi M1 ! t" using IH d(2) by simp
    then show ?thesis using eff True by auto
  next
    case False
    then show ?thesis using IH eff by auto
  qed
qed

lemma np_get_in_range:
  "- int (length xs) \<le> i \<Longrightarrow> i < int (length xs) \<Longrightarrow> \<exists>x \<in> set xs. np_get xs i = Inr x"
  by (auto simp: np_get_def np_index_def)

lemma edge_column_total:
  assumes "\<forall>row \<in> set r. length row = 3" and "length tet = 4"
    and "\<forall>c \<in> set tet. - int (length r) \<le> c \<and> c < int (length r)"
    and "0 \<le> k" and "k < 4"
  shows "\<exists>d. edge_column r tet k = Inr d"
proof -
  obtain ck where ck: "np_get tet k = Inr ck" "ck \<in> set tet"
    using np_get_in_range [of tet k] assms(2,4,5) by auto
  obtain c0 where c0: "np_get tet 0 = Inr c0" "c0 \<in> set tet"
    using np_get_in_range [of tet 0] assms(2) by auto
  obtain rk where rk: "np_get r ck = Inr rk" "rk \<in> set r"
    using np_get_in_range [of r ck] assms(3) ck(2) by auto
  obtain r0 where r0: "np_get r c0 = Inr r0" "r0 \<in> set r"
    using np_get_in_range [of r c0] assms(3) c0(2) by auto
  show ?thesis using assms(1) ck c0 rk r0
    by (simp add: edge_column_def ebind_def to_column3_def)
qed

lemma tet_matrix_total:
  assumes "\<forall>row \<in> set r. length row = 3" and "length tet = 4"
    and "\<forall>c \<in> set tet. - int (length r) \<le> c \<and> c < int (length r)"
  shows "\<exists>B. tet_matrix r tet = Inr B"
proof -
  obtain b0 where b0: "edge_column r tet 1 = Inr b0"
    using edge_column_total [OF assms, of 1] by auto
  obtain b1 where b1: "edge_column r tet 2 = Inr b1"
    using edge_column_total [OF assms, of 2] by auto
  obtain b2 where b2: "edge_column r tet 3 = Inr b2"
    using edge_column_total [OF assms, of 3] by auto
  show ?thesis by (simp add: tet_matrix_def ebind_def b0 b1 b2)
qed

lemma computePhi_step_total:
  assumes "mesh_ok M" and "t < N_T M"
  shows "\<exists>M1. computePhi_step t M = Inr M1 \<and> mesh_ok M1"
proof -
  have tet: "np_get (T M) (int t) = Inr (T M ! t)" "T M ! t \<in> set (T M)"
    using assms by (auto simp: mesh_ok_def np_get_def np_index_def)
  obtain B where B: "tet_matrix (R M) (T M ! t) = Inr B"
    using tet_matrix_total [of "R M" "T M ! t"] assms(1) tet(2) by (auto simp: mesh_ok_def)
  show ?thesis using assms
    by (auto simp: computePhi_step_def ebind_def tet B Let_def mesh_ok_def)
qed

lemma computePhi_loop_total:
  assumes "mesh_ok M" and "\<forall>t \<in> set ts. t < N_T M"
  shows "\<exists>M'. computePhi_loop ts M = Inr M'"
  using assms
proof (induction ts arbitrary: M)
  case Nil
  then show ?case by simp
next
  case (Cons t0 ts)
  then obtain M1 where step: "computePhi_step t0 M = Inr M1" and ok: "mesh_ok M1"
    using computePhi_step_total [of M t0] by auto
  have "N_T M1 = N_T M" using computePhi_step_effect [OF step] by simp
  then obtain M' where "computePhi_loop ts M1 = Inr M'"
    using Cons.IH [OF ok] Cons.prems(2) by auto
  then show ?case by (simp add: ebind_def step)
qed

text \<open>
  C4 (amended). \<open>computePhi\<close> raises nothing for a tetrahedron without volume. On a mesh
  whose indices are in range it returns normally, and for every tetrahedron whose stored
  volume is 0 the shape tensor is left as it was before the call (zero after
  \<open>setMeshTets\<close>); the loop goes on with the next tetrahedron.
\<close>

theorem computePhi_stores_zero_volume_and_goes_on:
  assumes "mesh_ok M"
  shows "\<exists>M'. computePhi M = Inr M' \<and>
           (\<forall>t < N_T M. V M' ! t = 0 \<longrightarrow> Phi M' ! t = Phi M ! t)"
proof -
  obtain M' where M': "computePhi_loop [0..<N_T M] M = Inr M'"
    using computePhi_loop_total [OF assms, of "[0..<N_T M]"] by auto
  have "\<forall>t < N_T M. V M' ! t = 0 \<longrightarrow> Phi M' ! t = Phi M ! t"
    using computePhi_loop_frame [OF M'] by auto
  then show ?thesis using M' by (simp add: computePhi_def)
qed

theorem computePhi_stores_zero_volume_and_goes_on_witness:
  "mesh_ok flat_mesh \<and> computePhi flat_mesh = Inr flat_mesh \<and> 0 < N_T flat_mesh \<and>
   V flat_mesh ! 0 = 0 \<and> Phi flat_mesh ! 0 = zeros2 4 3"
proof -
  have ok: "mesh_ok flat_mesh"
    by (simp add: mesh_ok_def flat_mesh_def setMeshTets_def setMeshCoords_def new_fbf_def
          zeros3_def)
  obtain M' where run: "computePhi flat_mesh = Inr M'"
    and "\<forall>t < N_T flat_mesh. V M' ! t = 0 \<longrightarrow> Phi M' ! t = Phi flat_mesh ! t"
    using computePhi_stores_zero_volume_and_goes_on [OF ok] by auto
  have val: "computePhi flat_mesh = Inr flat_mesh" by code_simp
  have rest: "0 < N_T flat_mesh \<and> V flat_mesh ! 0 = 0 \<and> Phi flat_mesh ! 0 = zeros2 4 3"
    by code_simp
  show ?thesis using ok val rest by simp
qed

text \<open>
  C4 as stated fails: the tetrahedron of \<open>flat_mesh\<close> has its four corners in one
  plane, and \<open>computePhi\<close> returns normally, with the volume 0 and the shape tensor still
  zero.
\<close>

theorem degenerate_mesh_raises_nothing: "computePhi flat_mesh = Inr flat_mesh"
  by code_simp

section \<open>The energy: update_energy\<close>

lemma any_free_take:
  assumes "np_take vs tet = Inr row"
  shows "(\<exists>b \<in> set row. b) = any_free vs tet"
proof -
  have "list_all2 (\<lambda>j y. np_get vs j = Inr y) tet row" using assms by (simp add: np_take_Inr)
  then show ?thesis
    unfolding any_free_def by (induction rule: list_all2_induct) auto
qed

lemma countEnergy_eq:
  assumes "emap (np_take vs) tets = Inr varT"
  shows "map (\<lambda>row. \<exists>b \<in> set row. b) varT = map (any_free vs) tets"
proof -
  have "list_all2 (\<lambda>tet row. np_take vs tet = Inr row) tets varT"
    using assms by (simp add: emap_Inr)
  then show ?thesis
    by (induction rule: list_all2_induct) (auto simp: any_free_take)
qed

lemma select_by_map:
  "length es = length ts \<Longrightarrow>
   map fst (filter snd (zip es (map p ts))) = map fst (filter (\<lambda>x. p (snd x)) (zip es ts))"
  by (induction es ts rule: list_induct2) auto

lemma means_nth:
  assumes "emap np_mean eps = Inr means"
  shows "length means = length eps \<and>
         (\<forall>t < length eps. eps ! t \<noteq> [] \<and> means ! t = sum_list (eps ! t) / real (length (eps ! t)))"
proof -
  have "list_all2 (\<lambda>row m. np_mean row = Inr m) eps means" using assms by (simp add: emap_Inr)
  then show ?thesis
    by (auto simp: list_all2_conv_all_nth np_mean_def split: if_splits)
qed


text \<open>
  C6. \<open>update_energy\<close> stores \<open>E_t = mean_b(w_tb) * V_t\<close> for every tetrahedron, the mean
  being the sum over the \<open>N_b\<close> beams divided by \<open>N_b\<close>, and \<open>E_glo\<close> is the sum of
  \<open>E_t\<close> over exactly the tetrahedra with at least one free corner: a tetrahedron whose
  corners are all fixed is left out of the sum.
\<close>

theorem update_energy_sums_free_tetrahedra:
  assumes run: "update_energy epsilon_b M = Inr M'"
    and le: "length epsilon_b = N_T M" and lV: "length (V M) = N_T M"
    and lE: "length (E M) = N_T M" and lT: "length (T M) = N_T M"
    and beams: "\<forall>row \<in> set epsilon_b. length row = N_b M"
  shows "(\<forall>t < N_T M. E M' ! t = sum_list (epsilon_b ! t) / real (N_b M) * V M ! t) \<and>
         E_glo M' = sum_list (map fst (filter (\<lambda>x. any_free (var M) (snd x)) (zip (E M') (T M))))"
proof -
  from run obtain varT means x E' counted where
    varT: "emap (np_take (var M)) (T M) = Inr varT"
    and means: "emap np_mean epsilon_b = Inr means"
    and x: "np_mul means (V M) = Inr x"
    and E': "assign_all (E M) x = Inr E'"
    and counted: "bool_select E' (map (\<lambda>row. \<exists>b \<in> set row. b) varT) = Inr counted"
    and M': "M' = M\<lparr> E := E', E_glo := sum_list counted \<rparr>"
    by (auto simp: update_energy_def ebind_Inr Let_def)
  note mn = means_nth [OF means]
  have lm: "length means = N_T M" using mn le by simp
  have xv: "x = map2 (*) means (V M)" using x lm lV by (simp add: np_mul_def)
  have Ex: "E' = x" using E' xv lm lV lE by (simp add: assign_all_def)
  have lE': "length E' = N_T M" using Ex xv lm lV by simp
  have ce: "map (\<lambda>row. \<exists>b \<in> set row. b) varT = map (any_free (var M)) (T M)"
    by (rule countEnergy_eq [OF varT])
  have cnt: "counted = map fst (filter (\<lambda>x. any_free (var M) (snd x)) (zip E' (T M)))"
    using counted lE' lT by (simp add: ce bool_select_def select_by_map)
  have Et: "\<forall>t < N_T M. E' ! t = sum_list (epsilon_b ! t) / real (N_b M) * V M ! t"
  proof (intro allI impI)
    fix t assume t: "t < N_T M"
    then have "length (epsilon_b ! t) = N_b M" using beams le by simp
    then show "E' ! t = sum_list (epsilon_b ! t) / real (N_b M) * V M ! t"
      using t mn le lm lV by (simp add: Ex xv)
  qed
  show ?thesis using Et cnt by (simp add: M')
qed

theorem update_energy_sums_free_tetrahedra_witness:
  "update_energy [[1, 2, 3], [4, 5, 6]] two_tets
     = Inr (two_tets\<lparr> E := [1 / 3, 5 / 3], E_glo := 1 / 3 \<rparr>) \<and>
   length [[1, 2, 3], [4, 5, 6 :: real]] = N_T two_tets \<and> length (V two_tets) = N_T two_tets \<and>
   length (E two_tets) = N_T two_tets \<and> length (T two_tets) = N_T two_tets \<and>
   N_b two_tets = 3 \<and>
   E (two_tets\<lparr> E := [1 / 3, 5 / 3], E_glo := 1 / 3 \<rparr>) ! 1 = (4 + 5 + 6) / 3 * (1 / 3) \<and>
   E_glo (two_tets\<lparr> E := [1 / 3, 5 / 3], E_glo := 1 / 3 \<rparr>) = 1 / 3"
proof -
  let ?M' = "two_tets\<lparr> E := [1 / 3, 5 / 3], E_glo := 1 / 3 \<rparr>"
  have run: "update_energy [[1, 2, 3], [4, 5, 6]] two_tets = Inr ?M'" by code_simp
  have h1: "length [[1, 2, 3], [4, 5, 6 :: real]] = N_T two_tets" by code_simp
  have h2: "length (V two_tets) = N_T two_tets" by code_simp
  have h3: "length (E two_tets) = N_T two_tets" by code_simp
  have h4: "length (T two_tets) = N_T two_tets" by code_simp
  have nb: "N_b two_tets = 3" by code_simp
  have h5: "\<forall>row \<in> set [[1, 2, 3], [4, 5, 6 :: real]]. length row = N_b two_tets"
    by (simp add: nb)
  have v1: "V two_tets ! 1 = 1 / 3" by code_simp
  have t1: "(1::nat) < N_T two_tets" by code_simp
  have "E ?M' ! 1 = sum_list ([[1, 2, 3], [4, 5, 6]] ! 1) / real (N_b two_tets) * V two_tets ! 1"
    using update_energy_sums_free_tetrahedra [OF run h1 h2 h3 h4 h5] t1 by blast
  then have e1: "E ?M' ! 1 = (4 + 5 + 6) / 3 * (1 / 3)" by (simp add: nb v1)
  show ?thesis using run h1 h2 h3 h4 nb e1 by simp
qed

section \<open>The conjugate-gradient step: solve_CG\<close>

lemma sum_mul_nonneg: "0 \<le> sum_mul a a"
proof -
  have "\<And>r. 0 \<le> imul r r"
    unfolding imul_def by (rule sum_list_nonneg) (auto simp: zip_same)
  then show ?thesis
    unfolding sum_mul_def by (intro sum_list_nonneg) (auto simp: zip_same)
qed

text \<open>
  C5. When the force deviation on the free rows vanishes (\<open>normb = 0\<close>), \<open>solve_CG\<close>
  returns 0 and leaves the state, and with it \<open>U\<close>, as it was. The stiffness operator is
  not applied on the way: the result is the same on a state whose connection table makes
  every application raise.
\<close>

theorem solve_CG_zero_rhs:
  assumes "force_deviation M = Inr ff" and "sum_mul ff ff = 0" and "length (var M) = N_c M"
  shows "solve_CG stepper M = Inr (0, M)"
  using assms by (simp add: solve_CG_def ebind_def bool_select_def zeros2_def)

theorem solve_CG_zero_rhs_witness:
  "force_deviation idle_node = Inr [[0, 0, 0]] \<and> sum_mul [[0, 0, 0]] [[0, 0, 0]] = 0 \<and>
   length (var idle_node) = N_c idle_node \<and>
   solve_CG (66 / 1000) idle_node = Inr (0, idle_node) \<and>
   mulK_sparse idle_node (zeros2 1 3) (zeros2 1 3) = Inl IndexError"
proof -
  have ff: "force_deviation idle_node = Inr [[0, 0, 0]]" by code_simp
  have z: "sum_mul [[0, 0, 0]] [[0, 0, 0]] = 0" by code_simp
  have l: "length (var idle_node) = N_c idle_node" by code_simp
  have e: "mulK_sparse idle_node (zeros2 1 3) (zeros2 1 3) = Inl IndexError" by code_simp
  show ?thesis using solve_CG_zero_rhs [OF ff z l, of "66 / 1000"] ff z l e by simp
qed

lemma cg_loop_count:
  assumes "cg_loop M b n i uu rr pp resid = Inr (k, uu', rr')"
  shows "i \<le> k \<and> k \<le> i + n \<and> (k < i + n \<longrightarrow> sum_mul rr' rr' < b)"
  using assms
proof (induction n arbitrary: i uu rr pp resid)
  case 0
  then show ?case by simp
next
  case (Suc n)
  from Suc.prems obtain Ap where Ap: "mulK_sparse M (zeros2 (N_c M) 3) pp = Inr Ap"
    and nz: "sum_mul pp Ap \<noteq> 0"
    by (auto simp: ebind_Inr split: if_splits)
  let ?alpha = "resid / sum_mul pp Ap"
  let ?uu = "add2 uu (scale ?alpha pp)"
  let ?rr = "sub2 rr (scale ?alpha Ap)"
  let ?rs = "sum_mul ?rr ?rr"
  show ?case
  proof (cases "?rs < b")
    case True
    then show ?thesis using Suc.prems Ap nz by (simp add: ebind_def Let_def)
  next
    case False
    then have "cg_loop M b n (Suc i) ?uu ?rr (add2 ?rr (scale (?rs / resid) pp)) ?rs
               = Inr (k, uu', rr')"
      using Suc.prems Ap nz by (simp add: ebind_def Let_def split: if_splits)
    from Suc.IH [OF this] show ?thesis by auto
  qed
qed

lemma cg_loop_not_earlier:
  assumes "cg_loop M b n i uu rr pp resid = Inr (k, uu', rr')" and "m < k - i" and "0 < m"
  shows "\<exists>uu'' rr''. cg_loop M b m i uu rr pp resid = Inr (i + m, uu'', rr'') \<and>
           \<not> sum_mul rr'' rr'' < b"
  using assms
proof (induction n arbitrary: i uu rr pp resid m)
  case 0
  then show ?case by simp
next
  case (Suc n)
  from Suc.prems(1) obtain Ap where Ap: "mulK_sparse M (zeros2 (N_c M) 3) pp = Inr Ap"
    and nz: "sum_mul pp Ap \<noteq> 0"
    by (auto simp: ebind_Inr split: if_splits)
  let ?alpha = "resid / sum_mul pp Ap"
  let ?uu = "add2 uu (scale ?alpha pp)"
  let ?rr = "sub2 rr (scale ?alpha Ap)"
  let ?rs = "sum_mul ?rr ?rr"
  obtain m' where m: "m = Suc m'" using Suc.prems(3) by (cases m) auto
  have notlt: "\<not> ?rs < b"
  proof
    assume "?rs < b"
    then have "k = Suc i" using Suc.prems(1) Ap nz by (simp add: ebind_def Let_def)
    then show False using Suc.prems(2,3) by simp
  qed
  then have rest: "cg_loop M b n (Suc i) ?uu ?rr (add2 ?rr (scale (?rs / resid) pp)) ?rs
               = Inr (k, uu', rr')" and r0: "resid \<noteq> 0"
    using Suc.prems(1) Ap nz by (simp_all add: ebind_def Let_def split: if_splits)
  show ?case
  proof (cases m')
    case 0
    then show ?thesis using Ap nz notlt r0 by (simp add: m ebind_def Let_def)
  next
    case (Suc m'')
    then have "m' < k - Suc i" "0 < m'" using Suc.prems(2) m by auto
    from Suc.IH [OF rest this] show ?thesis
      using Ap nz notlt r0 by (simp add: m ebind_def Let_def)
  qed
qed

text \<open>Evaluation on a single free node with a diagonal stiffness block.\<close>

lemma zeros_1_3: "zeros2 (Suc 0) 3 = [[0, 0, 0]]"
  by (simp add: zeros2_def numeral_3_eq_3)

lemma N_c_diag_node: "N_c (diag_node k fg) = Suc 0"
  by (simp add: diag_node_def setMeshCoords_def)

lemma mulK_sparse_diag_node:
  "mulK_sparse (diag_node k fg) [[0, 0, 0]] [[x, y, z]] = Inr [[x, k * y, z]]"
  by (simp add: mulK_sparse_def diag_node_def setMeshCoords_def new_fbf_def np_take_def
        np_get_def np_index_def ebind_def einsum_nij_nj_def imul_def coo_toarray_def
        sparse_indices_def shape2_def zeros2_def coo_add_def numeral_3_eq_3)

lemma force_deviation_diag_node:
  "force_deviation (diag_node k [x, y, z]) = Inr [[x, y, z]]"
  by (simp add: force_deviation_def diag_node_def setMeshCoords_def new_fbf_def np_sub2_def
        zero_fixed_rows_def ebind_def zeros2_def numeral_3_eq_3)

lemmas cg_eval = CG_capped_def N_c_diag_node zeros_1_3 mulK_sparse_diag_node
  ebind_def np_sub2_def sum_mul_def imul_def add2_def sub2_def scale_def Let_def

lemma run_CG_diag_node: "run_CG (diag_node k fg) ff = CG_capped (Suc (Suc (Suc 0))) (diag_node k fg) ff"
  by (simp add: run_CG_def N_c_diag_node numeral_3_eq_3)

lemma solve_CG_diag_node:
  "solve_CG stepper (diag_node k [x, y, z]) =
     (if 0 < x * x + y * y + z * z
      then ebind (run_CG (diag_node k [x, y, z]) [[x, y, z]]) (\<lambda>res. case res of (i, uu, rr) \<Rightarrow>
             ebind (add_to_free_rows [True] [[0, 0, 0]] uu stepper) (\<lambda>U'.
             ebind (bool_select uu [True]) (\<lambda>moved.
               Inr (sum_mul moved moved * stepper * stepper, (diag_node k [x, y, z])\<lparr> U := U' \<rparr>))))
      else Inr (0, diag_node k [x, y, z]))"
proof -
  have v: "var (diag_node k [x, y, z]) = [True]" "U (diag_node k [x, y, z]) = [[0, 0, 0]]"
    by (simp_all add: diag_node_def setMeshCoords_def zeros2_def numeral_3_eq_3)
  show ?thesis
    by (simp add: solve_CG_def force_deviation_diag_node N_c_diag_node zeros_1_3 v
          bool_select_def sum_mul_def imul_def ebind_def)
qed

text \<open>
  C2 (amended). The loop makes at most \<open>3 * N_c\<close> iterations and stops early exactly when
  the squared residual \<open>rsnew\<close> falls below \<open>tol * normb\<close>, with \<open>tol = 0.00001\<close> taken as
  it is and not squared: a run that ends before the bound ends with
  \<open>sum(rr * rr) < 0.00001 * sum(ff * ff)\<close>, and with any smaller bound \<open>m\<close> on the
  iterations the loop runs all \<open>m\<close> of them and ends above that threshold.
\<close>

theorem run_CG_stops_below_tol_times_normb:
  assumes "run_CG M ff = Inr (i, uu, rr)"
  shows "i \<le> 3 * N_c M \<and>
         (i < 3 * N_c M \<longrightarrow> sum_mul rr rr < 1 / 100000 * sum_mul ff ff) \<and>
         (\<forall>m. 0 < m \<and> m < i \<longrightarrow>
            (\<exists>uu' rr'. CG_capped m M ff = Inr (m, uu', rr') \<and>
               \<not> sum_mul rr' rr' < 1 / 100000 * sum_mul ff ff))"
proof -
  from assms obtain kk r0 where
    kk: "mulK_sparse M (zeros2 (N_c M) 3) (zeros2 (N_c M) 3) = Inr kk"
    and r0: "np_sub2 ff kk = Inr r0"
    and loop: "cg_loop M (1 / 100000 * sum_mul ff ff) (3 * N_c M) 0 (zeros2 (N_c M) 3) r0 r0
                 (sum_mul r0 r0) = Inr (i, uu, rr)"
    by (auto simp: run_CG_def CG_capped_def ebind_Inr Let_def)
  have count: "i \<le> 3 * N_c M \<and> (i < 3 * N_c M \<longrightarrow> sum_mul rr rr < 1 / 100000 * sum_mul ff ff)"
    using cg_loop_count [OF loop] by simp
  have "\<exists>uu' rr'. CG_capped m M ff = Inr (m, uu', rr') \<and>
          \<not> sum_mul rr' rr' < 1 / 100000 * sum_mul ff ff" if "0 < m" "m < i" for m
    using cg_loop_not_earlier [OF loop, of m] that
    by (simp add: CG_capped_def ebind_def kk r0 Let_def)
  then show ?thesis using count by blast
qed

theorem run_CG_stops_below_tol_times_normb_witness:
  "run_CG two_step_node [[1, 1, 0]] = Inr (2, [[1, 1 / 2, 0]], [[0, 0, 0]]) \<and>
   2 < 3 * N_c two_step_node \<and>
   sum_mul [[0, 0, 0]] [[0, 0, 0]] < 1 / 100000 * sum_mul [[1, 1, 0]] [[1, 1, 0]] \<and>
   CG_capped 1 two_step_node [[1, 1, 0]] = Inr (1, [[2 / 3, 2 / 3, 0]], [[1 / 3, - (1 / 3), 0]]) \<and>
   \<not> sum_mul [[1 / 3, - (1 / 3), 0]] [[1 / 3, - (1 / 3), 0]]
       < 1 / 100000 * sum_mul [[1, 1, 0]] [[1, 1, 0]]"
proof -
  have run: "run_CG two_step_node [[1, 1, 0]] = Inr (2, [[1, 1 / 2, 0]], [[0, 0, 0]])"
    unfolding two_step_node_def run_CG_diag_node by (simp add: cg_eval)
  have cap: "CG_capped 1 two_step_node [[1, 1, 0]]
             = Inr (1, [[2 / 3, 2 / 3, 0]], [[1 / 3, - (1 / 3), 0]])"
    unfolding two_step_node_def by (simp add: cg_eval)
  have n: "2 < 3 * N_c two_step_node" by (simp add: two_step_node_def N_c_diag_node)
  note bounds = run_CG_stops_below_tol_times_normb [OF run]
  have below: "sum_mul [[0, 0, 0]] [[0, 0, 0]] < 1 / 100000 * sum_mul [[1, 1, 0]] [[1, 1, 0]]"
    using bounds n by blast
  have "\<exists>uu' rr'. CG_capped 1 two_step_node [[1, 1, 0]] = Inr (1, uu', rr') \<and>
          \<not> sum_mul rr' rr' < 1 / 100000 * sum_mul [[1, 1, 0]] [[1, 1, 0]]"
    using bounds by (metis zero_less_one one_less_numeral_iff semiring_norm(76))
  then obtain uu' rr' where c: "CG_capped 1 two_step_node [[1, 1, 0]] = Inr (1, uu', rr')"
    and a: "\<not> sum_mul rr' rr' < 1 / 100000 * sum_mul [[1, 1, 0]] [[1, 1, 0]]"
    by blast
  have "rr' = [[1 / 3, - (1 / 3), 0]]" using c unfolding cap by simp
  then have above: "\<not> sum_mul [[1 / 3, - (1 / 3), 0]] [[1 / 3, - (1 / 3), 0]]
       < 1 / 100000 * sum_mul [[1, 1, 0]] [[1, 1, 0]]"
    using a by simp
  show ?thesis using run n below cap above by simp
qed

text \<open>
  C2 as stated fails: on \<open>stiff_node\<close> the loop stops after one of its three iterations
  with a squared residual that is below \<open>tol * normb\<close> and not below \<open>tol^2 * normb\<close>.
\<close>

theorem run_CG_stops_above_tol_squared:
  "force_deviation stiff_node = Inr [[1, 1, 0]] \<and>
   run_CG stiff_node [[1, 1, 0]]
     = Inr (1, [[2000 / 2001, 2000 / 2001, 0]], [[1 / 2001, - (1 / 2001), 0]]) \<and>
   1 < 3 * N_c stiff_node \<and>
   \<not> sum_mul [[1 / 2001, - (1 / 2001), 0]] [[1 / 2001, - (1 / 2001), 0]]
       < (1 / 100000)\<^sup>2 * sum_mul [[1, 1, 0]] [[1, 1, 0]]"
  unfolding stiff_node_def run_CG_diag_node
  by (simp add: cg_eval force_deviation_diag_node power2_eq_square)

text \<open>The algebra of arrays of shape \<open>(n, 3)\<close> and the residual of the loop.\<close>

lemma is_Nx3_add2: "is_Nx3 n a \<Longrightarrow> is_Nx3 n b \<Longrightarrow> is_Nx3 n (add2 a b)"
  by (auto simp: is_Nx3_def add2_def set_zip)

lemma is_Nx3_sub2: "is_Nx3 n a \<Longrightarrow> is_Nx3 n b \<Longrightarrow> is_Nx3 n (sub2 a b)"
  by (auto simp: is_Nx3_def sub2_def set_zip)

lemma is_Nx3_scale: "is_Nx3 n a \<Longrightarrow> is_Nx3 n (scale c a)"
  by (auto simp: is_Nx3_def scale_def)

lemma is_Nx3_zeros: "is_Nx3 n (zeros2 n 3)"
  by (simp add: is_Nx3_def zeros2_def)

lemma is_Nx3_Ku: "is_Nx3 (length u) (Ku_spec conns K u)"
  by (auto simp: is_Nx3_def Ku_spec_def)

lemma is_Nx3_eqI:
  assumes "is_Nx3 n a" and "is_Nx3 n b"
    and "\<And>i c. i < n \<Longrightarrow> c < 3 \<Longrightarrow> a ! i ! c = b ! i ! c"
  shows "a = b"
proof (rule nth_equalityI)
  show "length a = length b" using assms(1,2) by (simp add: is_Nx3_def)
  fix i assume "i < length a"
  then have i: "i < n" using assms(1) by (simp add: is_Nx3_def)
  then have "length (a ! i) = 3" "length (b ! i) = 3"
    using assms(1,2) by (auto simp: is_Nx3_def)
  then show "a ! i = b ! i" using assms(3) [OF i] by (auto intro: nth_equalityI)
qed

lemma add2_nth:
  "is_Nx3 n a \<Longrightarrow> is_Nx3 n b \<Longrightarrow> i < n \<Longrightarrow> c < 3 \<Longrightarrow> add2 a b ! i ! c = a ! i ! c + b ! i ! c"
  by (simp add: is_Nx3_def add2_def)

lemma sub2_nth:
  "is_Nx3 n a \<Longrightarrow> is_Nx3 n b \<Longrightarrow> i < n \<Longrightarrow> c < 3 \<Longrightarrow> sub2 a b ! i ! c = a ! i ! c - b ! i ! c"
  by (simp add: is_Nx3_def sub2_def)

lemma scale_nth:
  "is_Nx3 n a \<Longrightarrow> i < n \<Longrightarrow> c < 3 \<Longrightarrow> scale k a ! i ! c = k * a ! i ! c"
  by (simp add: is_Nx3_def scale_def)

lemma imul_linear:
  "length x = length y \<Longrightarrow>
   imul r (map2 (+) x (map (\<lambda>v. k * v) y)) = imul r x + k * imul r y"
proof (induction r arbitrary: x y)
  case Nil
  then show ?case by (simp add: imul_def)
next
  case (Cons a r)
  show ?case
  proof (cases x)
    case Nil
    then show ?thesis using Cons.prems by (simp add: imul_def)
  next
    case (Cons b x')
    then obtain d y' where y: "y = d # y'" using Cons.prems by (cases y) auto
    have "imul r (map2 (+) x' (map (\<lambda>v. k * v) y')) = imul r x' + k * imul r y'"
      using Cons.prems Cons y by (intro Cons.IH) simp
    then show ?thesis using Cons y by (simp add: imul_def algebra_simps)
  qed
qed

lemma zip_fst_in: "e \<in> set (zip xs ys) \<Longrightarrow> fst e \<in> set xs"
  by (cases e) (auto dest: set_zip_leftD)

lemma Ku_nth:
  "i < length u \<Longrightarrow> a < 3 \<Longrightarrow>
   Ku_spec conns K u ! i ! a
   = sum_list (map (\<lambda>e. imul (snd e ! a) (u ! nat (snd (fst e))))
                (filter (\<lambda>e. fst (fst e) = int i) (zip conns K)))"
  by (simp add: Ku_spec_def)

lemma Ku_linear:
  assumes ok: "conn_ok M n" and u: "is_Nx3 n u" and p: "is_Nx3 n p"
  shows "Ku_spec (connections M) (K_glo_conn M) (add2 u (scale k p))
         = add2 (Ku_spec (connections M) (K_glo_conn M) u)
                (scale k (Ku_spec (connections M) (K_glo_conn M) p))"
proof (rule is_Nx3_eqI [where n = n])
  have lu: "length u = n" "length p = n" using u p by (simp_all add: is_Nx3_def)
  have up: "is_Nx3 n (add2 u (scale k p))" by (intro is_Nx3_add2 is_Nx3_scale u p)
  then have lup: "length (add2 u (scale k p)) = n" by (simp add: is_Nx3_def)
  show "is_Nx3 n (Ku_spec (connections M) (K_glo_conn M) (add2 u (scale k p)))"
    using is_Nx3_Ku [of "add2 u (scale k p)"] lup by simp
  have Ku: "is_Nx3 n (Ku_spec (connections M) (K_glo_conn M) u)"
    and Kp: "is_Nx3 n (Ku_spec (connections M) (K_glo_conn M) p)"
    using is_Nx3_Ku [of u] is_Nx3_Ku [of p] lu by simp_all
  show "is_Nx3 n (add2 (Ku_spec (connections M) (K_glo_conn M) u)
                (scale k (Ku_spec (connections M) (K_glo_conn M) p)))"
    by (intro is_Nx3_add2 is_Nx3_scale Ku Kp)
  fix i c assume i: "i < n" and c: "c < (3::nat)"
  have row: "add2 u (scale k p) ! nat (snd (fst e))
             = map2 (+) (u ! nat (snd (fst e))) (map (\<lambda>v. k * v) (p ! nat (snd (fst e))))"
    if "e \<in> set (zip (connections M) (K_glo_conn M))" for e
  proof -
    have "fst e \<in> set (connections M)" using that by (rule zip_fst_in)
    then have "nat (snd (fst e)) < n" using ok by (auto simp: conn_ok_def)
    then show ?thesis using lu by (simp add: add2_def scale_def)
  qed
  have len: "length (u ! nat (snd (fst e))) = length (p ! nat (snd (fst e)))"
    if "e \<in> set (zip (connections M) (K_glo_conn M))" for e
  proof -
    have "fst e \<in> set (connections M)" using that by (rule zip_fst_in)
    then have "nat (snd (fst e)) < n" using ok by (auto simp: conn_ok_def)
    then show ?thesis using u p by (simp add: is_Nx3_def)
  qed
  let ?F = "filter (\<lambda>e. fst (fst e) = int i) (zip (connections M) (K_glo_conn M))"
  have "Ku_spec (connections M) (K_glo_conn M) (add2 u (scale k p)) ! i ! c
        = sum_list (map (\<lambda>e. imul (snd e ! c) (add2 u (scale k p) ! nat (snd (fst e)))) ?F)"
    using i c lup by (simp add: Ku_nth)
  also have "\<dots> = sum_list (map (\<lambda>e. imul (snd e ! c) (u ! nat (snd (fst e)))
                                   + k * imul (snd e ! c) (p ! nat (snd (fst e)))) ?F)"
    by (rule arg_cong [where f = sum_list], rule map_cong) (auto simp: row len imul_linear)
  also have "\<dots> = sum_list (map (\<lambda>e. imul (snd e ! c) (u ! nat (snd (fst e)))) ?F)
                  + k * sum_list (map (\<lambda>e. imul (snd e ! c) (p ! nat (snd (fst e)))) ?F)"
    by (simp add: sum_list_addf sum_list_const_mult)
  also have "\<dots> = add2 (Ku_spec (connections M) (K_glo_conn M) u)
                (scale k (Ku_spec (connections M) (K_glo_conn M) p)) ! i ! c"
    using i c lu Ku Kp by (simp add: add2_nth scale_nth is_Nx3_scale Ku_nth)
  finally show "Ku_spec (connections M) (K_glo_conn M) (add2 u (scale k p)) ! i ! c
        = add2 (Ku_spec (connections M) (K_glo_conn M) u)
                (scale k (Ku_spec (connections M) (K_glo_conn M) p)) ! i ! c" .
qed

lemma Ku_zeros:
  assumes "conn_ok M n"
  shows "Ku_spec (connections M) (K_glo_conn M) (zeros2 n 3) = zeros2 n 3"
proof (rule is_Nx3_eqI [where n = n])
  show "is_Nx3 n (Ku_spec (connections M) (K_glo_conn M) (zeros2 n 3))"
    using is_Nx3_Ku [of "zeros2 n 3"] by (simp add: zeros2_def)
  show "is_Nx3 n (zeros2 n 3)" by (rule is_Nx3_zeros)
  fix i c assume i: "i < n" and c: "c < (3::nat)"
  have z: "imul (snd e ! c) (zeros2 n 3 ! nat (snd (fst e))) = 0"
    if "e \<in> set (zip (connections M) (K_glo_conn M))" for e
  proof -
    have "fst e \<in> set (connections M)" using that by (rule zip_fst_in)
    then have "nat (snd (fst e)) < n" using assms by (auto simp: conn_ok_def)
    then have "zeros2 n 3 ! nat (snd (fst e)) = replicate 3 0" by (simp add: zeros2_def)
    then show ?thesis by (simp add: imul_def zip_replicate2 sum_list_0 comp_def)
  qed
  have "Ku_spec (connections M) (K_glo_conn M) (zeros2 n 3) ! i ! c
        = sum_list (map (\<lambda>e. (0::real))
             (filter (\<lambda>e. fst (fst e) = int i) (zip (connections M) (K_glo_conn M))))"
    unfolding Ku_nth [of i "zeros2 n 3" c, simplified zeros2_def length_replicate, OF i c, folded zeros2_def]
    by (rule arg_cong [where f = sum_list], rule map_cong) (auto simp: z)
  then show "Ku_spec (connections M) (K_glo_conn M) (zeros2 n 3) ! i ! c = zeros2 n 3 ! i ! c"
    using i c by (simp add: zeros2_def)
qed

lemma sub2_sub2:
  assumes "is_Nx3 n f" "is_Nx3 n a" "is_Nx3 n b"
  shows "sub2 (sub2 f a) (scale k b) = sub2 f (add2 a (scale k b))"
proof (rule is_Nx3_eqI [where n = n])
  show "is_Nx3 n (sub2 (sub2 f a) (scale k b))"
    by (intro is_Nx3_sub2 is_Nx3_scale assms)
  show "is_Nx3 n (sub2 f (add2 a (scale k b)))"
    by (intro is_Nx3_sub2 is_Nx3_add2 is_Nx3_scale assms)
  fix i c assume "i < n" "c < (3::nat)"
  then show "sub2 (sub2 f a) (scale k b) ! i ! c = sub2 f (add2 a (scale k b)) ! i ! c"
    using assms
    by (simp add: sub2_nth [where n = n] add2_nth [where n = n] scale_nth [where n = n]
          is_Nx3_sub2 is_Nx3_add2 is_Nx3_scale)
qed

lemma cg_loop_residual:
  assumes ok: "conn_ok M (N_c M)" and ff: "is_Nx3 (N_c M) ff"
    and run: "cg_loop M b n i uu rr pp resid = Inr (k, uu', rr')"
    and shapes: "is_Nx3 (N_c M) uu" "is_Nx3 (N_c M) pp"
    and inv: "rr = sub2 ff (Ku_spec (connections M) (K_glo_conn M) uu)"
  shows "rr' = sub2 ff (Ku_spec (connections M) (K_glo_conn M) uu') \<and> is_Nx3 (N_c M) uu'"
  using run shapes inv
proof (induction n arbitrary: i uu rr pp resid)
  case 0
  then show ?case by auto
next
  case (Suc n)
  let ?K = "Ku_spec (connections M) (K_glo_conn M)"
  have Ap: "mulK_sparse M (zeros2 (N_c M) 3) pp = Inr (?K pp)"
    by (rule mulK_sparse_is_spec [OF ok Suc.prems(3) is_Nx3_zeros])
  have nz: "sum_mul pp (?K pp) \<noteq> 0"
    using Suc.prems(1) by (auto simp: Ap ebind_def split: if_splits)
  have lp: "length pp = N_c M" "length uu = N_c M" using Suc.prems(2,3) by (simp_all add: is_Nx3_def)
  have Kpp: "is_Nx3 (N_c M) (?K pp)" and Kuu: "is_Nx3 (N_c M) (?K uu)"
    using is_Nx3_Ku [of pp] is_Nx3_Ku [of uu] lp by simp_all
  have rr: "is_Nx3 (N_c M) rr" unfolding Suc.prems(4) by (intro is_Nx3_sub2 ff Kuu)
  let ?alpha = "resid / sum_mul pp (?K pp)"
  let ?uu = "add2 uu (scale ?alpha pp)"
  let ?rr = "sub2 rr (scale ?alpha (?K pp))"
  let ?rs = "sum_mul ?rr ?rr"
  have uu1: "is_Nx3 (N_c M) ?uu" by (intro is_Nx3_add2 is_Nx3_scale Suc.prems(2,3))
  have rr1: "is_Nx3 (N_c M) ?rr" by (intro is_Nx3_sub2 is_Nx3_scale rr Kpp)
  have inv1: "?rr = sub2 ff (?K ?uu)"
    unfolding Suc.prems(4) Ku_linear [OF ok Suc.prems(2,3)]
    by (rule sub2_sub2 [OF ff Kuu Kpp])
  show ?case
  proof (cases "?rs < b")
    case True
    then have "uu' = ?uu" "rr' = ?rr"
      using Suc.prems(1) nz by (simp_all add: Ap ebind_def Let_def)
    then show ?thesis using inv1 uu1 by simp
  next
    case False
    then have rest: "cg_loop M b n (Suc i) ?uu ?rr (add2 ?rr (scale (?rs / resid) pp)) ?rs
               = Inr (k, uu', rr')"
      using Suc.prems(1) nz by (simp add: Ap ebind_def Let_def split: if_splits)
    have pp1: "is_Nx3 (N_c M) (add2 ?rr (scale (?rs / resid) pp))"
      by (intro is_Nx3_add2 is_Nx3_scale rr1 Suc.prems(3))
    show ?thesis by (rule Suc.IH [OF rest uu1 pp1 inv1])
  qed
qed

lemma np_sub2_Nx3:
  "is_Nx3 n a \<Longrightarrow> is_Nx3 n b \<Longrightarrow> np_sub2 a b = Inr (sub2 a b)"
  by (auto simp: np_sub2_def sub2_def is_Nx3_def intro!: nth_equalityI)

lemma sub2_zeros: "is_Nx3 n a \<Longrightarrow> sub2 a (zeros2 n 3) = a"
  by (rule is_Nx3_eqI [where n = n])
     (auto simp: sub2_nth [where n = n] is_Nx3_sub2 is_Nx3_zeros, simp add: zeros2_def)

lemma run_CG_residual:
  assumes ok: "conn_ok M (N_c M)" and ff: "is_Nx3 (N_c M) ff"
    and run: "run_CG M ff = Inr (i, uu, rr)"
  shows "rr = sub2 ff (Ku_spec (connections M) (K_glo_conn M) uu) \<and> is_Nx3 (N_c M) uu"
proof -
  let ?Z = "zeros2 (N_c M) 3"
  have kk: "mulK_sparse M ?Z ?Z = Inr ?Z"
    using mulK_sparse_is_spec [OF ok is_Nx3_zeros is_Nx3_zeros] Ku_zeros [OF ok] by simp
  have r0: "np_sub2 ff ?Z = Inr ff"
    using np_sub2_Nx3 [OF ff is_Nx3_zeros] sub2_zeros [OF ff] by simp
  have loop: "cg_loop M (1 / 100000 * sum_mul ff ff) (3 * N_c M) 0 ?Z ff ff (sum_mul ff ff)
              = Inr (i, uu, rr)"
    using run by (simp add: run_CG_def CG_capped_def ebind_def kk r0 Let_def)
  have inv: "ff = sub2 ff (Ku_spec (connections M) (K_glo_conn M) ?Z)"
    using Ku_zeros [OF ok] sub2_zeros [OF ff] by simp
  show ?thesis
    by (rule cg_loop_residual [OF ok ff loop is_Nx3_zeros ff inv])
qed

lemma force_deviation_rows:
  assumes "force_deviation M = Inr ff"
    and "is_Nx3 n (f_glo M)" and "is_Nx3 n (f_ext M)" and "length (var M) = n"
  shows "is_Nx3 n ff \<and>
         (\<forall>i < n. ff ! i = (if var M ! i then map2 (-) (f_glo M ! i) (f_ext M ! i) else [0, 0, 0]))"
proof -
  have d: "np_sub2 (f_glo M) (f_ext M) = Inr (sub2 (f_glo M) (f_ext M))"
    by (rule np_sub2_Nx3 [OF assms(2,3)])
  have s: "is_Nx3 n (sub2 (f_glo M) (f_ext M))" by (rule is_Nx3_sub2 [OF assms(2,3)])
  have ff: "ff = map2 (\<lambda>v row. if v then row else map (\<lambda>x. 0) row) (var M) (sub2 (f_glo M) (f_ext M))"
    using assms(1,4) s by (simp add: force_deviation_def d ebind_def zero_fixed_rows_def is_Nx3_def)
  let ?D = "sub2 (f_glo M) (f_ext M)"
  have lD: "length ?D = n" and rows: "\<And>i. i < n \<Longrightarrow> length (?D ! i) = 3"
    using s by (simp_all add: is_Nx3_def)
  have z: "map (\<lambda>x. 0::real) row = [0, 0, 0]" if "length row = 3" for row :: "real list"
    using that by (rule length3E) simp
  have nth: "ff ! i = (if var M ! i then ?D ! i else [0, 0, 0])" if "i < n" for i
    using that lD assms(4) z [OF rows [OF that]] by (simp add: ff)
  have Dn: "?D ! i = map2 (-) (f_glo M ! i) (f_ext M ! i)" if "i < n" for i
    using that assms(2,3) by (simp add: sub2_def is_Nx3_def)
  have "length ff = n" using lD assms(4) by (simp add: ff)
  moreover have "length (ff ! i) = 3" if "i < n" for i
    using nth [OF that] rows [OF that] by (simp split: if_splits)
  ultimately have "is_Nx3 n ff" by (auto simp: is_Nx3_def in_set_conv_nth)
  then show ?thesis using nth Dn by simp
qed

lemma add_to_free_rows_nth:
  assumes "add_to_free_rows vs u uu stepper = Inr u'"
  shows "length u' = length u \<and>
         (\<forall>i < length u. u' ! i = (if vs ! i then map2 (+) (u ! i) (map (\<lambda>x. x * stepper) (uu ! i))
                                    else u ! i))"
  using assms by (auto simp: add_to_free_rows_def split: if_splits)

text \<open>
  C1 (amended). In the branch \<open>normb > 0\<close>, \<open>solve_CG\<close> runs the conjugate-gradient
  iteration for \<open>K . du = b\<close> with the right-hand side \<open>b = f_glo - f_ext\<close> on the free
  rows and 0 on the fixed rows, and adds \<open>stepper\<close> times the iterate to the free rows of
  \<open>U\<close>: the iterate \<open>uu\<close> and the residual \<open>rr\<close> the loop ends with satisfy
  \<open>rr = b - K . uu\<close>, and \<open>U[n]\<close> becomes \<open>U[n] + stepper * uu[n]\<close> on every free row.
\<close>

theorem solve_CG_steps_along_CG_iterate:
  assumes ok: "conn_ok M (N_c M)"
    and fg: "is_Nx3 (N_c M) (f_glo M)" and fe: "is_Nx3 (N_c M) (f_ext M)"
    and lU: "length (U M) = N_c M" and lv: "length (var M) = N_c M"
    and ff: "force_deviation M = Inr ff" and pos: "0 < sum_mul ff ff"
    and run: "solve_CG stepper M = Inr (du, M')"
  shows "\<exists>i uu rr. run_CG M ff = Inr (i, uu, rr) \<and>
           rr = sub2 ff (Ku_spec (connections M) (K_glo_conn M) uu) \<and>
           (\<forall>n < N_c M.
              ff ! n = (if var M ! n then map2 (-) (f_glo M ! n) (f_ext M ! n) else [0, 0, 0]) \<and>
              U M' ! n = (if var M ! n
                          then map2 (+) (U M ! n) (map (\<lambda>x. x * stepper) (uu ! n))
                          else U M ! n))"
proof -
  note fr = force_deviation_rows [OF ff fg fe lv]
  from run ff pos obtain i uu rr U' where
    cg: "run_CG M ff = Inr (i, uu, rr)"
    and upd: "add_to_free_rows (var M) (U M) uu stepper = Inr U'"
    and M': "U M' = U'"
    by (auto simp: solve_CG_def ebind_Inr split: if_splits prod.splits)
  have res: "rr = sub2 ff (Ku_spec (connections M) (K_glo_conn M) uu)"
    using run_CG_residual [OF ok _ cg] fr by simp
  show ?thesis
    using cg res fr add_to_free_rows_nth [OF upd] lU M' by auto
qed

text \<open>
  C1 as stated fails on the sign of the right-hand side. On \<open>one_node\<close> (stiffness the
  identity, \<open>f_glo = (1, 0, 0)\<close>, \<open>f_ext = 0\<close>, \<open>stepper = 1\<close>) the increment applied to
  \<open>U\<close> is \<open>(1, 0, 0)\<close>, and \<open>K\<close> times it is \<open>(1, 0, 0)\<close>, not
  \<open>f_ext - f_glo = (-1, 0, 0)\<close>.
\<close>

theorem solve_CG_rhs_is_not_f_ext_minus_f_glo:
  "solve_CG 1 one_node = Inr (1, one_node\<lparr> U := [[1, 0, 0]] \<rparr>) \<and>
   U one_node = [[0, 0, 0]] \<and>
   mulK_sparse one_node [[0, 0, 0]] [[1, 0, 0]] = Inr [[1, 0, 0]] \<and>
   spec_rhs one_node = Inr [[-1, 0, 0]] \<and>
   mulK_sparse one_node [[0, 0, 0]] [[1, 0, 0]] \<noteq> spec_rhs one_node"
proof -
  have a: "solve_CG 1 one_node = Inr (1, one_node\<lparr> U := [[1, 0, 0]] \<rparr>)"
    unfolding one_node_def solve_CG_diag_node run_CG_diag_node
    by (simp add: cg_eval add_to_free_rows_def bool_select_def)
  have b: "U one_node = [[0, 0, 0]]"
    by (simp add: one_node_def diag_node_def setMeshCoords_def zeros2_def numeral_3_eq_3)
  have c: "mulK_sparse one_node [[0, 0, 0]] [[1, 0, 0]] = Inr [[1, 0, 0]]"
    by (simp add: one_node_def mulK_sparse_diag_node)
  have d: "spec_rhs one_node = Inr [[-1, 0, 0]]"
    by (simp add: spec_rhs_def one_node_def diag_node_def setMeshCoords_def new_fbf_def
          np_sub2_def zero_fixed_rows_def ebind_def zeros2_def numeral_3_eq_3)
  show ?thesis using a b c d by simp
qed

theorem solve_CG_steps_along_CG_iterate_witness:
  "conn_ok two_step_node (N_c two_step_node) \<and>
   is_Nx3 (N_c two_step_node) (f_glo two_step_node) \<and>
   is_Nx3 (N_c two_step_node) (f_ext two_step_node) \<and>
   length (U two_step_node) = N_c two_step_node \<and>
   length (var two_step_node) = N_c two_step_node \<and>
   force_deviation two_step_node = Inr [[1, 1, 0]] \<and>
   0 < sum_mul [[1, 1, 0]] [[1, 1, 0]] \<and>
   solve_CG 1 two_step_node = Inr (5 / 4, two_step_node\<lparr> U := [[1, 1 / 2, 0]] \<rparr>) \<and>
   run_CG two_step_node [[1, 1, 0]] = Inr (2, [[1, 1 / 2, 0]], [[0, 0, 0]]) \<and>
   [[0, 0, 0]] = sub2 [[1, 1, 0]]
      (Ku_spec (connections two_step_node) (K_glo_conn two_step_node) [[1, 1 / 2, 0]])"
proof -
  have ok: "conn_ok two_step_node (N_c two_step_node)"
    by (simp add: conn_ok_def two_step_node_def diag_node_def setMeshCoords_def new_fbf_def)
  have fg: "is_Nx3 (N_c two_step_node) (f_glo two_step_node)"
    and fe: "is_Nx3 (N_c two_step_node) (f_ext two_step_node)"
    and lU: "length (U two_step_node) = N_c two_step_node"
    and lv: "length (var two_step_node) = N_c two_step_node"
    by (simp_all add: is_Nx3_def two_step_node_def diag_node_def setMeshCoords_def zeros2_def)
  have ff: "force_deviation two_step_node = Inr [[1, 1, 0]]"
    by (simp add: two_step_node_def force_deviation_diag_node)
  have pos: "0 < sum_mul [[1, 1, 0]] [[1, 1, 0]]" by (simp add: sum_mul_def imul_def)
  have cg: "run_CG two_step_node [[1, 1, 0]] = Inr (2, [[1, 1 / 2, 0]], [[0, 0, 0]])"
    unfolding two_step_node_def run_CG_diag_node by (simp add: cg_eval)
  have run: "solve_CG 1 two_step_node = Inr (5 / 4, two_step_node\<lparr> U := [[1, 1 / 2, 0]] \<rparr>)"
    unfolding two_step_node_def solve_CG_diag_node run_CG_diag_node
    by (simp add: cg_eval add_to_free_rows_def bool_select_def)
  obtain i uu rr where "run_CG two_step_node [[1, 1, 0]] = Inr (i, uu, rr)"
    and r: "rr = sub2 [[1, 1, 0]]
               (Ku_spec (connections two_step_node) (K_glo_conn two_step_node) uu)"
    using solve_CG_steps_along_CG_iterate [OF ok fg fe lU lv ff pos run] by blast
  then have "uu = [[1, 1 / 2, 0]]" "rr = [[0, 0, 0]]" unfolding cg by simp_all
  then have res: "[[0, 0, 0]] = sub2 [[1, 1, 0]]
      (Ku_spec (connections two_step_node) (K_glo_conn two_step_node) [[1, 1 / 2, 0]])"
    using r by simp
  show ?thesis using ok fg fe lU lv ff pos run cg res by simp
qed

section \<open>The outer loop: relax\<close>

lemma update_energy_frame:
  "update_energy eps M = Inr M' \<Longrightarrow> U M' = U M \<and> var M' = var M"
  by (auto simp: update_energy_def ebind_Inr Let_def)

lemma update_f_glo_frame:
  "update_f_glo a b c M = Inr M' \<Longrightarrow> U M' = U M \<and> var M' = var M"
  by (auto simp: update_f_glo_def ebind_Inr Let_def)

lemma update_K_glo_frame:
  "update_K_glo a b c d M = Inr M' \<Longrightarrow> U M' = U M \<and> var M' = var M"
  by (auto simp: update_K_glo_def reshape_stiffnes2_sparse_def reshape_stiffnes2_again_def
        ebind_Inr split: if_splits)

lemma updateGloFAndK_frame:
  assumes "updateGloFAndK lookUp M = Inr M'"
  shows "U M' = U M \<and> var M' = var M"
proof -
  from assms obtain s_bar s_star dEdsbar dEdsbarbar epsilon_b M1 M2 where
    "update_energy epsilon_b M = Inr M1"
    "update_f_glo s_star s_bar dEdsbar M1 = Inr M2"
    "update_K_glo s_star s_bar dEdsbar dEdsbarbar M2 = Inr M'"
    by (auto simp: updateGloFAndK_def ebind_Inr split: prod.splits)
  then show ?thesis
    using update_energy_frame update_f_glo_frame update_K_glo_frame by metis
qed

lemma fixed_rows_kept_refl: "fixed_rows_kept M M"
  by (simp add: fixed_rows_kept_def)

lemma fixed_rows_kept_trans:
  "fixed_rows_kept M M1 \<Longrightarrow> fixed_rows_kept M1 M2 \<Longrightarrow> fixed_rows_kept M M2"
  by (simp add: fixed_rows_kept_def)

lemma solve_CG_frame:
  assumes "solve_CG stepper M = Inr (du, M1)"
  shows "fixed_rows_kept M M1"
proof (cases "M1 = M")
  case True
  then show ?thesis by (simp add: fixed_rows_kept_refl)
next
  case False
  with assms obtain uu U' where
    upd: "add_to_free_rows (var M) (U M) uu stepper = Inr U'" and M1: "M1 = M\<lparr> U := U' \<rparr>"
    by (auto simp: solve_CG_def ebind_Inr split: if_splits prod.splits)
  have "length U' = length (U M) \<and>
        (\<forall>i < length (U M). U' ! i = (if var M ! i
           then map2 (+) (U M ! i) (map (\<lambda>x. x * stepper) (uu ! i)) else U M ! i))"
    by (rule add_to_free_rows_nth [OF upd])
  then show ?thesis by (simp add: fixed_rows_kept_def M1)
qed

lemma updateGloFAndK_kept:
  "updateGloFAndK lookUp M = Inr M' \<Longrightarrow> fixed_rows_kept M M'"
  using updateGloFAndK_frame [of lookUp M M'] by (simp add: fixed_rows_kept_def)

lemma relax_loop_frame:
  "fixed_rows_kept M (snd (relax_loop lookUp stepper crit n i relrec M))"
proof (induction n arbitrary: i relrec M)
  case 0
  then show ?case by (simp add: fixed_rows_kept_refl)
next
  case (Suc n)
  show ?case
  proof (cases "solve_CG stepper M")
    case (Inl e)
    then show ?thesis by (simp add: fixed_rows_kept_refl)
  next
    case (Inr r)
    obtain du M1 where r: "r = (du, M1)" by (cases r)
    have k1: "fixed_rows_kept M M1" using solve_CG_frame Inr r by simp
    show ?thesis
    proof (cases "updateGloFAndK lookUp M1")
      case (Inl e)
      then show ?thesis using Inr r k1 by simp
    next
      case M2: (Inr M2)
      have k2: "fixed_rows_kept M M2"
        using fixed_rows_kept_trans [OF k1 updateGloFAndK_kept [OF M2]] .
      have rec: "fixed_rows_kept M (snd (relax_loop lookUp stepper crit n i' relrec' M2))"
        for i' relrec'
        using fixed_rows_kept_trans [OF k2 Suc.IH] .
      show ?thesis
        using Inr r M2 k2 rec
        by (auto simp: split: sum.splits option.splits bool.splits)
    qed
  qed
qed

subsection \<open>A run of relax on one tetrahedron\<close>

text \<open>The unit tetrahedron with one free node and one beam along x, for the material
  \<open>spring\<close>. At rest \<open>updateGloFAndK\<close> gives the stiffness \<open>K_rest\<close>; pulled at the free
  node, one step of \<open>solve_CG\<close> with \<open>stepper = 1 / 12\<close> moves that node by
  \<open>(1, 0, 0)\<close>.\<close>

lemma zz_rest:
  "zzEpsilons3 spring [[[1], [0], [0]]] [1 / 6] = Inr ([[0]], [[0]], [[1 / 6]])"
  by (simp add: zzEpsilons3_def zzEpsilons3_row_def norm_axis1_def spring_def ebind_def)

lemma star_bar_rest:
  "get_star_and_bar rest_tet = Inr ([[[1], [0], [0]]], [[[-1], [1], [0], [0]]])"
  "get_star_and_bar rest_tet_updated = Inr ([[[1], [0], [0]]], [[[-1], [1], [0], [0]]])"
  "get_star_and_bar pulled_tet = Inr ([[[1], [0], [0]]], [[[-1], [1], [0], [0]]])"
  by code_simp+

lemma V_rest: "V rest_tet = [1 / 6]" "V rest_tet_updated = [1 / 6]" "V pulled_tet = [1 / 6]"
  "V pulled_tet_moved = [1 / 6]"
  by code_simp+

lemma assemble_rest:
  "ebind (update_energy [[0]] rest_tet) (\<lambda>M1.
     ebind (update_f_glo [[[-1], [1], [0], [0]]] [[[1], [0], [0]]] [[0]] M1) (\<lambda>M2.
       update_K_glo [[[-1], [1], [0], [0]]] [[[1], [0], [0]]] [[0]] [[1 / 6]] M2))
   = Inr rest_tet_updated"
  by code_simp

lemma assemble_rest_updated:
  "ebind (update_energy [[0]] rest_tet_updated) (\<lambda>M1.
     ebind (update_f_glo [[[-1], [1], [0], [0]]] [[[1], [0], [0]]] [[0]] M1) (\<lambda>M2.
       update_K_glo [[[-1], [1], [0], [0]]] [[[1], [0], [0]]] [[0]] [[1 / 6]] M2))
   = Inr rest_tet_updated"
  by code_simp

lemma assemble_pulled:
  "ebind (update_energy [[0]] pulled_tet) (\<lambda>M1.
     ebind (update_f_glo [[[-1], [1], [0], [0]]] [[[1], [0], [0]]] [[0]] M1) (\<lambda>M2.
       update_K_glo [[[-1], [1], [0], [0]]] [[[1], [0], [0]]] [[0]] [[1 / 6]] M2))
   = Inr pulled_tet_updated"
  by code_simp

lemma kernel_rest:
  "updateGloFAndK spring rest_tet = Inr rest_tet_updated"
  "updateGloFAndK spring rest_tet_updated = Inr rest_tet_updated"
  "updateGloFAndK spring pulled_tet = Inr pulled_tet_updated"
  by (simp_all add: updateGloFAndK_def star_bar_rest V_rest zz_rest
        assemble_rest assemble_rest_updated assemble_pulled ebind_def [of "Inr x" for x])

lemma star_bar_moved:
  "get_star_and_bar pulled_tet_moved = Inr ([[[2], [0], [0]]], [[[-1], [1], [0], [0]]])"
  by code_simp

lemma zz_moved:
  "zzEpsilons3 spring [[[2], [0], [0]]] [1 / 6] = Inr ([[1 / 2]], [[- (1 / 12)]], [[1 / 48]])"
proof -
  have "sqrt 4 = 2" using real_sqrt_abs [of 2] by simp
  then show ?thesis
    by (simp add: zzEpsilons3_def zzEpsilons3_row_def norm_axis1_def spring_def ebind_def)
qed

lemma assemble_moved:
  "(case ebind (update_energy [[1 / 2]] pulled_tet_moved) (\<lambda>M1.
     ebind (update_f_glo [[[-1], [1], [0], [0]]] [[[2], [0], [0]]] [[- (1 / 12)]] M1) (\<lambda>M2.
       update_K_glo [[[-1], [1], [0], [0]]] [[[2], [0], [0]]] [[- (1 / 12)]] [[1 / 48]] M2))
    of Inl e \<Rightarrow> False | Inr M \<Rightarrow> length (f_glo M) = 4)"
  by code_simp

lemma cg_parts:
  "force_deviation pulled_tet_updated = Inr [[0, 0, 0], [1, 0, 0], [0, 0, 0], [0, 0, 0]]"
  "N_c pulled_tet_updated = 4"
  "mulK_sparse pulled_tet_updated [[0, 0, 0], [0, 0, 0], [0, 0, 0], [0, 0, 0]]
     [[0, 0, 0], [0, 0, 0], [0, 0, 0], [0, 0, 0]]
     = Inr [[0, 0, 0], [0, 0, 0], [0, 0, 0], [0, 0, 0]]"
  "mulK_sparse pulled_tet_updated [[0, 0, 0], [0, 0, 0], [0, 0, 0], [0, 0, 0]]
     [[0, 0, 0], [1, 0, 0], [0, 0, 0], [0, 0, 0]]
     = Inr [[0, 0, 0], [1 / 12, 0, 0], [0, 0, 0], [0, 0, 0]]"
  "var pulled_tet_updated = [False, True, False, False]"
  "U pulled_tet_updated = [[0, 0, 0], [0, 0, 0], [0, 0, 0], [0, 0, 0]]"
  "zeros2 4 3 = [[0, 0, 0], [0, 0, 0], [0, 0, 0], [0, 0, 0::real]]"
  by code_simp+

lemma cg_loop_pulled:
  "cg_loop pulled_tet_updated (1 / 100000) (Suc n) 0
     [[0, 0, 0], [0, 0, 0], [0, 0, 0], [0, 0, 0]]
     [[0, 0, 0], [1, 0, 0], [0, 0, 0], [0, 0, 0]]
     [[0, 0, 0], [1, 0, 0], [0, 0, 0], [0, 0, 0]] 1
   = Inr (1, [[0, 0, 0], [12, 0, 0], [0, 0, 0], [0, 0, 0]],
             [[0, 0, 0], [0, 0, 0], [0, 0, 0], [0, 0, 0]])"
  by (simp add: cg_parts ebind_def sum_mul_def imul_def add2_def sub2_def scale_def Let_def)

lemma run_CG_pulled:
  "run_CG pulled_tet_updated [[0, 0, 0], [1, 0, 0], [0, 0, 0], [0, 0, 0]]
   = Inr (1, [[0, 0, 0], [12, 0, 0], [0, 0, 0], [0, 0, 0]],
             [[0, 0, 0], [0, 0, 0], [0, 0, 0], [0, 0, 0]])"
proof -
  have loop: "cg_loop pulled_tet_updated (1 / 100000) 12 0
      [[0, 0, 0], [0, 0, 0], [0, 0, 0], [0, 0, 0]]
      [[0, 0, 0], [1, 0, 0], [0, 0, 0], [0, 0, 0]]
      [[0, 0, 0], [1, 0, 0], [0, 0, 0], [0, 0, 0]] 1
    = Inr (1, [[0, 0, 0], [12, 0, 0], [0, 0, 0], [0, 0, 0]],
              [[0, 0, 0], [0, 0, 0], [0, 0, 0], [0, 0, 0]])"
    using cg_loop_pulled [of 11] by simp
  show ?thesis
    unfolding run_CG_def CG_capped_def cg_parts(2)
    by (simp add: cg_parts loop ebind_def np_sub2_def sum_mul_def imul_def Let_def)
qed

lemma solve_CG_pulled:
  "solve_CG (1 / 12) pulled_tet_updated = Inr (1, pulled_tet_moved)"
  by (simp add: solve_CG_def cg_parts run_CG_pulled ebind_def bool_select_def
        add_to_free_rows_def sum_mul_def imul_def pulled_tet_moved_def)

lemma kernel_moved:
  "\<exists>M2. updateGloFAndK spring pulled_tet_moved = Inr M2 \<and> length (f_glo M2) = 4"
  using assemble_moved
  by (simp add: updateGloFAndK_def star_bar_moved V_rest zz_moved ebind_def [of "Inr x" for x]
        split: sum.splits)

lemma relax_pulled:
  "fst (relax spring (1 / 12) 1 (1 / 100) None pulled_tet) = None \<and>
   U (snd (relax spring (1 / 12) 1 (1 / 100) None pulled_tet))
     = [[0, 0, 0], [1, 0, 0], [0, 0, 0], [0, 0, 0]]"
proof -
  obtain M2 where M2: "updateGloFAndK spring pulled_tet_moved = Inr M2"
    and lf: "length (f_glo M2) = 4"
    using kernel_moved by blast
  have fr: "U M2 = U pulled_tet_moved" "var M2 = var pulled_tet_moved"
    using updateGloFAndK_frame [OF M2] by simp_all
  have c: "U pulled_tet_moved = [[0, 0, 0], [1, 0, 0], [0, 0, 0], [0, 0, 0]]"
    "length (var pulled_tet_moved) = 4"
    by code_simp+
  have "relax spring (1 / 12) 1 (1 / 100) None pulled_tet = (None, M2)"
    by (simp add: relax_def kernel_rest(3) solve_CG_pulled M2 fr lf c ebind_def bool_select_def)
  then show ?thesis using fr c by simp
qed

lemma solve_CG_rest:
  "solve_CG stepper rest_tet_updated = Inr (0, rest_tet_updated)"
proof -
  have ff: "force_deviation rest_tet_updated = Inr (zeros2 4 3)" by code_simp
  have z: "sum_mul (zeros2 4 3) (zeros2 4 3) = 0" by code_simp
  have l: "length (var rest_tet_updated) = N_c rest_tet_updated" by code_simp
  show ?thesis using ff z l
    by (simp add: solve_CG_def ebind_def bool_select_def zeros2_def)
qed

text \<open>A state that \<open>solve_CG\<close> and \<open>updateGloFAndK\<close> leave as it is: without a record the
  loop reaches \<open>i = 7\<close> and raises there.\<close>

lemma relax_loop_fixpoint:
  assumes "\<And>st. solve_CG st M = Inr (0, M)" and "updateGloFAndK lookUp M = Inr M"
    and "length (var M) = length (f_glo M)" and "length (var M) = length (U M)"
  shows "i \<le> 7 \<Longrightarrow> 7 < i + n \<Longrightarrow>
         relax_loop lookUp stepper crit n i None M = (Some UnboundLocalError, M)"
proof (induction n arbitrary: i)
  case 0
  then show ?case by simp
next
  case (Suc n)
  show ?case
  proof (cases "6 < i")
    case True
    then show ?thesis using assms by (simp add: ebind_def bool_select_def)
  next
    case False
    then have "Suc i \<le> 7" "7 < Suc i + n" using Suc.prems by auto
    then have "relax_loop lookUp stepper crit n (Suc i) None M = (Some UnboundLocalError, M)"
      by (rule Suc.IH)
    then show ?thesis using False assms by (simp add: ebind_def bool_select_def)
  qed
qed

lemma relax_rest:
  "relax spring (66 / 1000) 300 (1 / 100) None rest_tet
   = (Some UnboundLocalError, rest_tet_updated)"
proof -
  have a: "length (var rest_tet_updated) = length (f_glo rest_tet_updated)" by code_simp
  have b: "length (var rest_tet_updated) = length (U rest_tet_updated)" by code_simp
  have "relax_loop spring (66 / 1000) (1 / 100) 300 0 None rest_tet_updated
        = (Some UnboundLocalError, rest_tet_updated)"
    by (rule relax_loop_fixpoint [OF solve_CG_rest kernel_rest(2) a b]) simp_all
  then show ?thesis by (simp add: relax_def kernel_rest(1))
qed

text \<open>
  C8. Whatever \<open>relax\<close> does (it may return, break or raise), in the state it leaves the
  array \<open>var\<close> is the one before the call and every row of \<open>U\<close> that belongs to a fixed
  node is the row before the call, for every number \<open>i_max\<close> of outer iterations; the
  same holds for every single call of \<open>solve_CG\<close>, whose update writes the rows of the
  free nodes only.
\<close>

theorem relax_keeps_fixed_rows:
  "fixed_rows_kept M (snd (relax lookUp stepper i_max rel_conv_crit relrecname M)) \<and>
   (\<forall>du M1. solve_CG stepper M = Inr (du, M1) \<longrightarrow> fixed_rows_kept M M1)"
proof -
  have "fixed_rows_kept M (snd (relax lookUp stepper i_max rel_conv_crit relrecname M))"
  proof (cases "updateGloFAndK lookUp M")
    case (Inl e)
    then show ?thesis by (simp add: relax_def fixed_rows_kept_refl)
  next
    case (Inr M0)
    have k0: "fixed_rows_kept M M0" by (rule updateGloFAndK_kept [OF Inr])
    have "fixed_rows_kept M (snd (relax_loop lookUp stepper rel_conv_crit i_max 0 relrec M0))"
      for relrec
      using fixed_rows_kept_trans [OF k0 relax_loop_frame] .
    then show ?thesis using Inr k0 by (auto simp: relax_def split: sum.splits option.splits)
  qed
  then show ?thesis using solve_CG_frame by blast
qed

theorem relax_keeps_fixed_rows_witness:
  "var pulled_tet = [False, True, False, False] \<and>
   U pulled_tet = [[0, 0, 0], [0, 0, 0], [0, 0, 0], [0, 0, 0]] \<and>
   fst (relax spring (1 / 12) 1 (1 / 100) None pulled_tet) = None \<and>
   U (snd (relax spring (1 / 12) 1 (1 / 100) None pulled_tet))
     = [[0, 0, 0], [1, 0, 0], [0, 0, 0], [0, 0, 0]] \<and>
   fixed_rows_kept pulled_tet (snd (relax spring (1 / 12) 1 (1 / 100) None pulled_tet))"
proof -
  have v: "var pulled_tet = [False, True, False, False]"
    and u: "U pulled_tet = [[0, 0, 0], [0, 0, 0], [0, 0, 0], [0, 0, 0]]"
    by code_simp+
  have "fixed_rows_kept pulled_tet (snd (relax spring (1 / 12) 1 (1 / 100) None pulled_tet))"
    using relax_keeps_fixed_rows [of pulled_tet spring "1 / 12" 1 "1 / 100" None] by simp
  then show ?thesis using v u relax_pulled by simp
qed

lemma relax_loop_unbound:
  "i \<le> 7 \<Longrightarrow> 7 < i + n \<Longrightarrow>
   fst (relax_loop lookUp stepper crit n i None M) \<noteq> None"
proof (induction n arbitrary: i M)
  case 0
  then show ?case by simp
next
  case (Suc n)
  show ?case
  proof (cases "6 < i")
    case True
    then show ?thesis
      by (auto simp: ebind_def split: sum.splits option.splits prod.splits)
  next
    case False
    then have "Suc i \<le> 7" "7 < Suc i + n" using Suc.prems by auto
    then have "fst (relax_loop lookUp stepper crit n (Suc i) None M') \<noteq> None" for M'
      by (rule Suc.IH)
    then show ?thesis using False
      by (auto simp: ebind_def split: sum.splits option.splits prod.splits)
  qed
qed

text \<open>
  C3. The test of convergence reads the local variable \<open>relrec\<close>, which \<open>relax\<close> binds only
  when a \<open>relrecname\<close> is given. Without one (the default), a call that allows more than
  seven outer iterations never returns normally: if nothing raises before, the eighth
  iteration (\<open>i = 7\<close>) raises UnboundLocalError where the test should be applied.
\<close>

theorem relax_without_relrecname_raises:
  assumes "7 < i_max"
  shows "fst (relax lookUp stepper i_max rel_conv_crit None M) \<noteq> None"
  using relax_loop_unbound [of 0 i_max lookUp stepper rel_conv_crit] assms
  by (auto simp: relax_def split: sum.splits)

theorem relax_without_relrecname_raises_witness:
  "(7::nat) < 300 \<and>
   relax spring (66 / 1000) 300 (1 / 100) None rest_tet
     = (Some UnboundLocalError, rest_tet_updated)"
proof -
  have h: "(7::nat) < 300" by simp
  have "fst (relax spring (66 / 1000) 300 (1 / 100) None rest_tet) \<noteq> None"
    using relax_without_relrecname_raises [OF h, of spring "66 / 1000" "1 / 100" rest_tet] .
  then show ?thesis using h relax_rest by simp
qed

end
